theory Spec2Isabelle
  imports Complex_Main "HOL-Library.Sublist"
begin

section \<open>The host: document store, mesh backend, shape backend\<close>

text \<open>
  \<^verbatim>\<open>MeshToBodyBatch005.py\<close> is a script over the FreeCAD document model and its mesh and
  shape kernels. None of that is code of the script, so it enters the embedding as data:
  the document is a record that the functions pass along, and every kernel operation is a
  field of a \<open>host\<close> record that the functions take as their first argument.

  Python exceptions are values of \<open>exn\<close>. A computation on the document returns either an
  exception or a result, together with the document as it is at that moment: what was
  written before a \<^verbatim>\<open>raise\<close> stays written.
\<close>

datatype exn =
    HostError
  | ReferenceError
  | AttributeError
  | UnboundLocalError
  | ValueError string

text \<open>
  A document object. \<open>Mesh\<close> and \<open>Shape\<close> are \<open>None\<close> when the object has no such
  attribute; \<open>Source\<close> and \<open>BaseFeature\<close> are links to other objects, by name.
  The internal name of an object is unique in its document and never changes, so a Python
  reference to a document object is modelled by that name (a \<open>handle\<close>).
\<close>

record ('m, 's) doc_object =
  Name :: string
  TypeId :: string
  Mesh :: "'m option"
  Shape :: "'s option"
  Source :: "string option"
  BaseFeature :: "string option"
  Visibility :: bool

type_synonym handle = string

datatype txn_event = Opened string | Committed string | Aborted string

text \<open>
  The document: its objects in creation order (\<^verbatim>\<open>doc.Objects\<close>), the open transaction
  with the objects as they were when it was opened, and the log of transaction events.
\<close>

record ('m, 's) document =
  Objects :: "('m, 's) doc_object list"
  transaction :: "(string \<times> ('m, 's) doc_object list) option"
  history :: "txn_event list"

datatype host_call =
    AddObject string string
  | RemoveObject string
  | Recompute
  | OpenTransaction string
  | CommitTransaction
  | AbortTransaction

text \<open>
  The kernel. A mesh query returns a value or raises; a mesh method that works in place
  returns the mesh it leaves behind and the exception it raised, if any. \<open>hasattr\<close> and
  \<open>getattr\<close> look a method up by its name, as the script does for the five general
  repairs. \<open>Part_Shell\<close> takes the shape whose faces it stitches. \<open>refine\<close> is what a
  \<^verbatim>\<open>Part::Refine\<close> feature computes from its source on recompute. \<open>raises\<close> tells, for each
  call on the document and each document, whether the call raises.
\<close>

record ('m, 't, 's) host =
  Topology :: "'m \<Rightarrow> 't"
  Mesh_Mesh :: "'t \<Rightarrow> exn + 'm"
  isSolid :: "'m \<Rightarrow> exn + bool"
  hasNonManifolds :: "'m \<Rightarrow> exn + bool"
  hasSelfIntersections :: "'m \<Rightarrow> exn + bool"
  CountPoints :: "'m \<Rightarrow> nat"
  CountFacets :: "'m \<Rightarrow> nat"
  Volume :: "'m \<Rightarrow> exn + real"
  Area :: "'m \<Rightarrow> exn + real"
  fixSelfIntersections :: "'m \<Rightarrow> exn option \<times> 'm"
  harmonizeNormals :: "'m \<Rightarrow> exn option \<times> 'm"
  hasattr :: "'m \<Rightarrow> string \<Rightarrow> bool"
  getattr :: "string \<Rightarrow> 'm \<Rightarrow> exn option \<times> 'm"
  fillupHoles :: "nat \<Rightarrow> 'm \<Rightarrow> exn option \<times> 'm"
  makeShapeFromMesh :: "'t \<Rightarrow> real \<Rightarrow> bool \<Rightarrow> exn + 's"
  Part_Shell :: "'s \<Rightarrow> exn + 's"
  Part_Solid :: "'s \<Rightarrow> exn + 's"
  nullShape :: "'s"
  refine :: "'s \<Rightarrow> 's"
  bool_Shape :: "'s \<Rightarrow> bool"
  isValid :: "'s \<Rightarrow> exn + bool"
  getUniqueObjectName :: "string list \<Rightarrow> string \<Rightarrow> string"
  raises :: "host_call \<Rightarrow> ('m, 's) document \<Rightarrow> bool"

subsection \<open>Computations on the document\<close>

type_synonym ('e, 'a, 'st) prog = "'st \<Rightarrow> ('e + 'a) \<times> 'st"

definition succeed :: "'a \<Rightarrow> ('e, 'a, 'st) prog" where
  "succeed a = (\<lambda>d. (Inr a, d))"

definition raise_exn :: "'e \<Rightarrow> ('e, 'a, 'st) prog" where
  "raise_exn e = (\<lambda>d. (Inl e, d))"

definition of_result :: "'e + 'a \<Rightarrow> ('e, 'a, 'st) prog" where
  "of_result r = (\<lambda>d. (r, d))"

definition seq :: "('e, 'a, 'st) prog \<Rightarrow> ('a \<Rightarrow> ('e, 'b, 'st) prog) \<Rightarrow> ('e, 'b, 'st) prog" where
  "seq m f = (\<lambda>d. case m d of (Inl e, d') \<Rightarrow> (Inl e, d') | (Inr a, d') \<Rightarrow> f a d')"

definition try_except :: "('e, 'a, 'st) prog \<Rightarrow> ('e \<Rightarrow> ('f, 'a, 'st) prog) \<Rightarrow> ('f, 'a, 'st) prog" where
  "try_except m h = (\<lambda>d. case m d of (Inl e, d') \<Rightarrow> h e d' | (Inr a, d') \<Rightarrow> (Inr a, d'))"

definition with_locals :: "'l \<Rightarrow> ('e, 'a, 'st) prog \<Rightarrow> ('e \<times> 'l, 'a, 'st) prog" where
  "with_locals l m = (\<lambda>d. case m d of (Inl e, d') \<Rightarrow> (Inl (e, l), d') | (Inr a, d') \<Rightarrow> (Inr a, d'))"

subsection \<open>Reading and writing objects through a handle\<close>

definition getObject :: "('m, 's) document \<Rightarrow> string \<Rightarrow> ('m, 's) doc_object option" where
  "getObject d n = find (\<lambda>ob. Name ob = n) (Objects d)"

text \<open>
  Reading an attribute through a handle whose object has left the document raises
  \<^verbatim>\<open>ReferenceError\<close>; reading an attribute the object does not have raises
  \<^verbatim>\<open>AttributeError\<close>.
\<close>

definition get_Name :: "handle \<Rightarrow> (exn, string, ('m, 's) document) prog" where
  "get_Name h = (\<lambda>d. case getObject d h of
       None \<Rightarrow> (Inl ReferenceError, d)
     | Some ob \<Rightarrow> (Inr (Name ob), d))"

definition get_Mesh :: "handle \<Rightarrow> (exn, 'm, ('m, 's) document) prog" where
  "get_Mesh h = (\<lambda>d. case getObject d h of
       None \<Rightarrow> (Inl ReferenceError, d)
     | Some ob \<Rightarrow> (case Mesh ob of None \<Rightarrow> (Inl AttributeError, d) | Some m \<Rightarrow> (Inr m, d)))"

definition get_Shape :: "handle \<Rightarrow> (exn, 's, ('m, 's) document) prog" where
  "get_Shape h = (\<lambda>d. case getObject d h of
       None \<Rightarrow> (Inl ReferenceError, d)
     | Some ob \<Rightarrow> (case Shape ob of None \<Rightarrow> (Inl AttributeError, d) | Some s \<Rightarrow> (Inr s, d)))"

definition update_object ::
  "handle \<Rightarrow> (('m, 's) doc_object \<Rightarrow> ('m, 's) doc_object) \<Rightarrow> ('m, 's) document \<Rightarrow> ('m, 's) document" where
  "update_object h f d = d\<lparr>Objects := map (\<lambda>ob. if Name ob = h then f ob else ob) (Objects d)\<rparr>"

definition set_attr ::
  "handle \<Rightarrow> (('m, 's) doc_object \<Rightarrow> ('m, 's) doc_object) \<Rightarrow> (exn, unit, ('m, 's) document) prog" where
  "set_attr h f = (\<lambda>d. case getObject d h of
       None \<Rightarrow> (Inl ReferenceError, d)
     | Some ob \<Rightarrow> (Inr (), update_object h f d))"

definition set_Mesh :: "handle \<Rightarrow> 'm \<Rightarrow> (exn, unit, ('m, 's) document) prog" where
  "set_Mesh h m = set_attr h (\<lambda>ob. ob\<lparr>Mesh := Some m\<rparr>)"

definition set_Shape :: "handle \<Rightarrow> 's \<Rightarrow> (exn, unit, ('m, 's) document) prog" where
  "set_Shape h s = set_attr h (\<lambda>ob. ob\<lparr>Shape := Some s\<rparr>)"

definition set_Source :: "handle \<Rightarrow> handle \<Rightarrow> (exn, unit, ('m, 's) document) prog" where
  "set_Source h src = set_attr h (\<lambda>ob. ob\<lparr>Source := Some src\<rparr>)"

definition set_BaseFeature :: "handle \<Rightarrow> handle \<Rightarrow> (exn, unit, ('m, 's) document) prog" where
  "set_BaseFeature h b = set_attr h (\<lambda>ob. ob\<lparr>BaseFeature := Some b\<rparr>)"

definition set_Visibility :: "handle \<Rightarrow> bool \<Rightarrow> (exn, unit, ('m, 's) document) prog" where
  "set_Visibility h v = set_attr h (\<lambda>ob. ob\<lparr>Visibility := v\<rparr>)"

subsection \<open>The document's methods\<close>

text \<open>
  \<^verbatim>\<open>doc.addObject(type, name)\<close> appends a new object and returns it. The object gets the
  requested name when no object has it, and a name of the host's choice otherwise. The
  objects this script creates are all Part features: they have a (null) shape and no mesh.
\<close>

definition new_object :: "('m, 't, 's) host \<Rightarrow> string \<Rightarrow> string \<Rightarrow> ('m, 's) doc_object" where
  "new_object host ty n =
     \<lparr>Name = n, TypeId = ty, Mesh = None, Shape = Some (nullShape host),
      Source = None, BaseFeature = None, Visibility = True\<rparr>"

definition addObject ::
  "('m, 't, 's) host \<Rightarrow> string \<Rightarrow> string \<Rightarrow> (exn, handle, ('m, 's) document) prog" where
  "addObject host ty name = (\<lambda>d.
     if raises host (AddObject ty name) d then (Inl HostError, d)
     else
       (let taken = map Name (Objects d);
            n = (if name \<in> set taken then getUniqueObjectName host taken name else name)
        in (Inr n, d\<lparr>Objects := Objects d @ [new_object host ty n]\<rparr>)))"

definition removeObject ::
  "('m, 't, 's) host \<Rightarrow> string \<Rightarrow> (exn, unit, ('m, 's) document) prog" where
  "removeObject host n = (\<lambda>d.
     if raises host (RemoveObject n) d then (Inl HostError, d)
     else (Inr (), d\<lparr>Objects := filter (\<lambda>ob. Name ob \<noteq> n) (Objects d)\<rparr>))"

text \<open>
  \<^verbatim>\<open>doc.recompute()\<close> refreshes derived data and neither creates, deletes nor renames an
  object: every \<^verbatim>\<open>Part::Refine\<close> feature gets the refined shape of its source.
\<close>

definition recompute_object ::
  "('m, 't, 's) host \<Rightarrow> ('m, 's) document \<Rightarrow> ('m, 's) doc_object \<Rightarrow> ('m, 's) doc_object" where
  "recompute_object host d ob =
     (if TypeId ob = ''Part::Refine'' then
        (case Source ob of
           None \<Rightarrow> ob
         | Some src \<Rightarrow>
             (case getObject d src of
                None \<Rightarrow> ob
              | Some so \<Rightarrow>
                  (case Shape so of
                     None \<Rightarrow> ob
                   | Some s \<Rightarrow> ob\<lparr>Shape := Some (refine host s)\<rparr>)))
      else ob)"

definition recompute :: "('m, 't, 's) host \<Rightarrow> (exn, unit, ('m, 's) document) prog" where
  "recompute host = (\<lambda>d.
     if raises host Recompute d then (Inl HostError, d)
     else (Inr (), d\<lparr>Objects := map (recompute_object host d) (Objects d)\<rparr>))"

text \<open>
  Transactions. Opening one records the objects as they are (and commits a transaction
  that is still open); committing closes it; aborting closes it and puts the recorded
  objects back. Committing or aborting with no open transaction does nothing.
\<close>

definition openTransaction ::
  "('m, 't, 's) host \<Rightarrow> string \<Rightarrow> (exn, unit, ('m, 's) document) prog" where
  "openTransaction host name = (\<lambda>d.
     if raises host (OpenTransaction name) d then (Inl HostError, d)
     else (Inr (), d\<lparr>transaction := Some (name, Objects d),
                      history := history d
                        @ (case transaction d of None \<Rightarrow> [] | Some (n, snap) \<Rightarrow> [Committed n])
                        @ [Opened name]\<rparr>))"

definition commitTransaction :: "('m, 't, 's) host \<Rightarrow> (exn, unit, ('m, 's) document) prog" where
  "commitTransaction host = (\<lambda>d.
     if raises host CommitTransaction d then (Inl HostError, d)
     else (case transaction d of
             None \<Rightarrow> (Inr (), d)
           | Some (n, snap) \<Rightarrow>
               (Inr (), d\<lparr>transaction := None, history := history d @ [Committed n]\<rparr>)))"

definition abortTransaction :: "('m, 't, 's) host \<Rightarrow> (exn, unit, ('m, 's) document) prog" where
  "abortTransaction host = (\<lambda>d.
     if raises host AbortTransaction d then (Inl HostError, d)
     else (case transaction d of
             None \<Rightarrow> (Inr (), d)
           | Some (n, snap) \<Rightarrow>
               (Inr (), d\<lparr>Objects := snap, transaction := None,
                          history := history d @ [Aborted n]\<rparr>)))"

section \<open>The repair pipeline: \<^verbatim>\<open>attempt_comprehensive_manual_repair\<close>\<close>

text \<open>
  The local variables of the function after its last repair step (line 93).
\<close>

record 'm repair_locals =
  mutable_mesh :: 'm
  repairs_applied :: "string list"
  self_intersections_fixed_on_mutable :: bool
  initial_has_self_intersections :: bool

text \<open>
  Lines 34 to 58, the priority pass, entered when the copy has self-intersections. One
  \<^verbatim>\<open>try\<close> holds the fix, the harmonization, the diagnostic \<^verbatim>\<open>isSolid()\<close> calls and the
  re-check; the first of them that raises ends the pass, and what was appended to
  \<^verbatim>\<open>repairs_applied\<close> before stays. The result is the mesh, the applied steps and the flag
  \<^verbatim>\<open>self_intersections_fixed_on_mutable\<close>.
\<close>

definition priority_pass ::
  "('m, 't, 's) host \<Rightarrow> 'm \<Rightarrow> 'm \<times> string list \<times> bool" where
  "priority_pass host m =
     (case fixSelfIntersections host m of
        (Some e, m1) \<Rightarrow> (m1, [], False)
      | (None, m1) \<Rightarrow>
          (case isSolid host m1 of
             Inl e \<Rightarrow> (m1, [''Fix self-intersections (priority)''], False)
           | Inr s1 \<Rightarrow>
               (case harmonizeNormals host m1 of
                  (Some e, m2) \<Rightarrow> (m2, [''Fix self-intersections (priority)''], False)
                | (None, m2) \<Rightarrow>
                    (case isSolid host m2 of
                       Inl e \<Rightarrow>
                         (m2, [''Fix self-intersections (priority)'',
                               ''Harmonize Normals (after self-intersection fix)''], False)
                     | Inr s2 \<Rightarrow>
                         (case hasSelfIntersections host m2 of
                            Inl e \<Rightarrow>
                              (m2, [''Fix self-intersections (priority)'',
                                    ''Harmonize Normals (after self-intersection fix)''], False)
                          | Inr si \<Rightarrow>
                              (m2, [''Fix self-intersections (priority)'',
                                    ''Harmonize Normals (after self-intersection fix)''],
                               \<not> si))))))"

definition repair_methods :: "(string \<times> string) list" where
  "repair_methods =
     [(''removeDuplicatedPoints'', ''Remove duplicate points''),
      (''removeDuplicatedFacets'', ''Remove duplicate facets''),
      (''removeInvalidPoints'', ''Remove invalid points''),
      (''removeNonManifolds'', ''Remove non-manifolds''),
      (''removeFoldsOnSurface'', ''Remove surface folds'')]"

text \<open>
  Lines 71 to 82, one round of the loop: the method is called when the mesh has it; its
  description is appended when the call returns. The diagnostic \<^verbatim>\<open>isSolid()\<close> of line 79
  comes after the append, and its exception is caught by the same \<^verbatim>\<open>except\<close>.
\<close>

definition apply_repair_method ::
  "('m, 't, 's) host \<Rightarrow> string \<times> string \<Rightarrow> 'm \<times> string list \<Rightarrow> 'm \<times> string list" where
  "apply_repair_method host md st =
     (case md of (method_name, description) \<Rightarrow>
      case st of (m, applied) \<Rightarrow>
        if hasattr host m method_name then
          (case getattr host method_name m of
             (Some e, m') \<Rightarrow> (m', applied)
           | (None, m') \<Rightarrow>
               (case isSolid host m' of
                  Inl e \<Rightarrow> (m', applied @ [description])
                | Inr s \<Rightarrow> (m', applied @ [description])))
        else (m, applied))"

fun apply_repair_methods ::
  "('m, 't, 's) host \<Rightarrow> (string \<times> string) list \<Rightarrow> 'm \<times> string list \<Rightarrow> 'm \<times> string list" where
  "apply_repair_methods host [] st = st"
| "apply_repair_methods host (md # rest) st =
     apply_repair_methods host rest (apply_repair_method host md st)"

text \<open>Lines 85 to 93.\<close>

definition fill_small_holes ::
  "('m, 't, 's) host \<Rightarrow> 'm \<times> string list \<Rightarrow> 'm \<times> string list" where
  "fill_small_holes host st =
     (case st of (m, applied) \<Rightarrow>
        (case fillupHoles host 100 m of
           (Some e, m') \<Rightarrow> (m', applied)
         | (None, m') \<Rightarrow>
             (case isSolid host m' of
                Inl e \<Rightarrow> (m', applied @ [''Fill small holes''])
              | Inr s \<Rightarrow> (m', applied @ [''Fill small holes'']))))"

text \<open>
  Lines 33 to 93 on the mutable copy \<open>m0\<close>, once line 31 has answered \<open>initial\<close>.
\<close>

definition repair_passes ::
  "('m, 't, 's) host \<Rightarrow> 'm \<Rightarrow> bool \<Rightarrow> 'm repair_locals" where
  "repair_passes host m0 initial =
     (case (if initial then priority_pass host m0 else (m0, [], False)) of
        (m1, applied1, fixed) \<Rightarrow>
          (case fill_small_holes host
                  (apply_repair_methods host repair_methods (m1, applied1)) of
             (m3, applied3) \<Rightarrow>
               \<lparr>mutable_mesh = m3, repairs_applied = applied3,
                self_intersections_fixed_on_mutable = fixed,
                initial_has_self_intersections = initial\<rparr>))"

text \<open>
  Lines 17 to 93: the copy of the topology, the read of \<^verbatim>\<open>mesh_obj.Name\<close> for the log,
  the diagnostic \<^verbatim>\<open>isSolid()\<close> of line 27 and the query of line 31 are not guarded by an
  inner \<^verbatim>\<open>try\<close>: when one raises, the function's outer \<^verbatim>\<open>except\<close> takes over.
\<close>

definition repair_steps ::
  "('m, 't, 's) host \<Rightarrow> handle \<Rightarrow> (exn, 'm repair_locals, ('m, 's) document) prog" where
  "repair_steps host mesh_obj =
     seq (get_Mesh mesh_obj) (\<lambda>original_mesh.
     seq (of_result (Mesh_Mesh host (Topology host original_mesh))) (\<lambda>m0.
     seq (get_Name mesh_obj) (\<lambda>name.
     seq (of_result (isSolid host m0)) (\<lambda>s0.
     seq (of_result (hasSelfIntersections host m0)) (\<lambda>initial.
       succeed (repair_passes host m0 initial))))))"

text \<open>
  Lines 95 to 123: with at least one step applied, the copy is written back, the document
  recomputed three times, and the status read from the object's mesh.
\<close>

definition repair_commit ::
  "('m, 't, 's) host \<Rightarrow> handle \<Rightarrow> 'm repair_locals \<Rightarrow> (exn, bool, ('m, 's) document) prog" where
  "repair_commit host mesh_obj L =
     (if repairs_applied L \<noteq> [] then
        seq (set_Mesh mesh_obj (mutable_mesh L)) (\<lambda>u0.
        seq (recompute host) (\<lambda>u1.
        seq (recompute host) (\<lambda>u2.
        seq (recompute host) (\<lambda>u3.
        seq (get_Mesh mesh_obj) (\<lambda>current_mesh_data.
        seq (of_result (isSolid host current_mesh_data)) (\<lambda>is_solid.
        seq (of_result (hasNonManifolds host current_mesh_data)) (\<lambda>has_non_manifolds.
        seq (of_result (hasSelfIntersections host current_mesh_data)) (\<lambda>queried.
          succeed
            (let final_has_self_intersections =
                   (if initial_has_self_intersections L
                    then \<not> self_intersections_fixed_on_mutable L
                    else queried)
             in is_solid \<and> \<not> has_non_manifolds \<and> \<not> final_has_self_intersections)))))))))
      else succeed False)"

definition attempt_comprehensive_manual_repair ::
  "('m, 't, 's) host \<Rightarrow> handle \<Rightarrow> (exn, bool, ('m, 's) document) prog" where
  "attempt_comprehensive_manual_repair host mesh_obj =
     try_except
       (seq (repair_steps host mesh_obj) (repair_commit host mesh_obj))
       (\<lambda>e. seq (get_Name mesh_obj) (\<lambda>name. succeed False))"

section \<open>Evaluation: \<^verbatim>\<open>attempt_mesh_repair\<close> and \<^verbatim>\<open>evaluate_mesh_automated\<close>\<close>

text \<open>
  Lines 131 to 151. The two keyword arguments are not used by the body.
\<close>

definition attempt_mesh_repair ::
  "('m, 't, 's) host \<Rightarrow> handle \<Rightarrow> bool \<Rightarrow> bool \<Rightarrow> (exn, bool, ('m, 's) document) prog" where
  "attempt_mesh_repair host mesh_obj has_non_manifolds has_self_intersections =
     try_except
       (seq (get_Name mesh_obj) (\<lambda>name.
        seq (attempt_comprehensive_manual_repair host mesh_obj) (\<lambda>success.
          if success then succeed True else succeed False)))
       (\<lambda>e. seq (get_Name mesh_obj) (\<lambda>name. succeed False))"

text \<open>
  Lines 155 to 205. The volume and the area are read for the log when the mesh is solid.
\<close>

definition evaluate_mesh_automated ::
  "('m, 't, 's) host \<Rightarrow> handle \<Rightarrow> (exn, string, ('m, 's) document) prog" where
  "evaluate_mesh_automated host selected_mesh =
     try_except
       (seq (get_Mesh selected_mesh) (\<lambda>mesh.
        seq (of_result (isSolid host mesh)) (\<lambda>is_solid.
        seq (of_result (hasNonManifolds host mesh)) (\<lambda>has_non_manifolds.
        seq (of_result (hasSelfIntersections host mesh)) (\<lambda>has_self_intersections.
        seq (get_Name selected_mesh) (\<lambda>name.
        seq (if is_solid
             then seq (of_result (Volume host mesh)) (\<lambda>v. of_result (Area host mesh))
             else succeed 0) (\<lambda>a.
          if is_solid \<and> \<not> has_non_manifolds \<and> \<not> has_self_intersections then
            succeed ''proceed''
          else if is_solid \<and> (has_non_manifolds \<or> has_self_intersections) then
            seq (attempt_mesh_repair host selected_mesh has_non_manifolds has_self_intersections)
              (\<lambda>repair_success.
                 if repair_success then succeed ''proceed'' else succeed ''repair'')
          else succeed ''repair'')))))))
       (\<lambda>e. seq (get_Name selected_mesh) (\<lambda>name. succeed ''cancel''))"

section \<open>Discovery: \<^verbatim>\<open>find_all_mesh_objects\<close>\<close>

record discovery_summary =
  total_objects :: nat
  mesh_objects :: nat
  mesh_names :: "string list"

text \<open>
  Lines 209 to 235. The argument is the document after the default of line 215, \<open>None\<close>
  when there is no active document; the empty dict of line 219 is \<open>None\<close>.
\<close>

definition find_all_mesh_objects ::
  "('m, 's) document option \<Rightarrow> handle list \<times> discovery_summary option" where
  "find_all_mesh_objects doc =
     (case doc of
        None \<Rightarrow> ([], None)
      | Some d \<Rightarrow>
          (let all_objects = Objects d;
               found = filter (\<lambda>ob. Mesh ob \<noteq> None) all_objects
           in (map Name found,
               Some \<lparr>total_objects = length all_objects,
                     mesh_objects = length found,
                     mesh_names = map Name found\<rparr>)))"

section \<open>Conversion: \<^verbatim>\<open>convert_single_mesh\<close>\<close>

text \<open>
  Lines 262 to 268, ``Convert Mesh to Shape''. \<^verbatim>\<open>purgeTouched\<close> only clears a flag that
  this model does not keep.
\<close>

definition mesh_to_shape ::
  "('m, 't, 's) host \<Rightarrow> handle \<Rightarrow> string \<Rightarrow> (exn, handle, ('m, 's) document) prog" where
  "mesh_to_shape host mesh_obj base_name =
     seq (addObject host ''Part::Feature'' (base_name @ ''_shape'')) (\<lambda>shape_obj.
     seq (get_Mesh mesh_obj) (\<lambda>mesh.
     seq (of_result (makeShapeFromMesh host (Topology host mesh) 0.1 False)) (\<lambda>shape.
     seq (set_Shape shape_obj shape) (\<lambda>u0.
       succeed shape_obj))))"

text \<open>Lines 270 to 272, ``Convert to Solid''.\<close>

definition shape_to_solid ::
  "('m, 't, 's) host \<Rightarrow> string \<Rightarrow> handle \<Rightarrow> (exn, handle, ('m, 's) document) prog" where
  "shape_to_solid host base_name shape_obj =
     seq (addObject host ''Part::Feature'' (base_name @ ''_solid'')) (\<lambda>solid_obj.
     seq (get_Shape shape_obj) (\<lambda>shape_of_obj.
     seq (of_result (Part_Shell host shape_of_obj)) (\<lambda>shell.
     seq (of_result (Part_Solid host shell)) (\<lambda>solid.
     seq (set_Shape solid_obj solid) (\<lambda>u1.
       succeed solid_obj)))))"

text \<open>Lines 274 to 277, ``Refine Shape''.\<close>

definition refine_solid ::
  "('m, 't, 's) host \<Rightarrow> string \<Rightarrow> handle \<Rightarrow> (exn, handle, ('m, 's) document) prog" where
  "refine_solid host base_name solid_obj =
     seq (addObject host ''Part::Refine'' (base_name @ ''_solid_refined'')) (\<lambda>refined_obj.
     seq (set_Source refined_obj solid_obj) (\<lambda>u2.
     seq (set_Visibility solid_obj False) (\<lambda>u3.
       succeed refined_obj)))"

text \<open>
  Lines 262 to 281: the three intermediate objects, the recompute and the test of line 281.
  The result is the three handles and whether the refined shape is there and valid.
\<close>

definition convert_build ::
  "('m, 't, 's) host \<Rightarrow> handle \<Rightarrow> string \<Rightarrow>
   (exn, handle \<times> handle \<times> handle \<times> bool, ('m, 's) document) prog" where
  "convert_build host mesh_obj base_name =
     seq (mesh_to_shape host mesh_obj base_name) (\<lambda>shape_obj.
     seq (shape_to_solid host base_name shape_obj) (\<lambda>solid_obj.
     seq (refine_solid host base_name solid_obj) (\<lambda>refined_obj.
     seq (recompute host) (\<lambda>u4.
     seq (get_Shape refined_obj) (\<lambda>refined_shape.
     seq (if bool_Shape host refined_shape
          then of_result (isValid host refined_shape)
          else succeed False) (\<lambda>valid.
       succeed (shape_obj, solid_obj, refined_obj, valid)))))))"

text \<open>Lines 282 to 287: the standalone copy of the refined shape and the body around it.\<close>

definition wrap_body ::
  "('m, 't, 's) host \<Rightarrow> string \<Rightarrow> handle \<Rightarrow> (exn, handle \<times> handle, ('m, 's) document) prog" where
  "wrap_body host base_name refined_obj =
     seq (addObject host ''Part::Feature'' (base_name @ ''_solid_simple'')) (\<lambda>simple_copy_obj.
     seq (get_Shape refined_obj) (\<lambda>refined_shape.
     seq (set_Shape simple_copy_obj refined_shape) (\<lambda>u0.
     seq (addObject host ''PartDesign::Body'' (base_name @ ''_Body'')) (\<lambda>body_obj.
     seq (set_BaseFeature body_obj simple_copy_obj) (\<lambda>u1.
     seq (set_Visibility simple_copy_obj False) (\<lambda>u2.
       succeed (simple_copy_obj, body_obj)))))))"

text \<open>Lines 289 to 295: the three intermediate objects and the original mesh are removed.\<close>

definition remove_intermediates ::
  "('m, 't, 's) host \<Rightarrow> handle \<Rightarrow> handle \<Rightarrow> handle \<Rightarrow> handle \<Rightarrow>
   (exn, unit, ('m, 's) document) prog" where
  "remove_intermediates host mesh_obj shape_obj solid_obj refined_obj =
     seq (get_Name shape_obj) (\<lambda>shape_name.
     seq (removeObject host shape_name) (\<lambda>u3.
     seq (get_Name solid_obj) (\<lambda>solid_name.
     seq (removeObject host solid_name) (\<lambda>u4.
     seq (get_Name refined_obj) (\<lambda>refined_name.
     seq (removeObject host refined_name) (\<lambda>u5.
     seq (get_Name mesh_obj) (\<lambda>mesh_name.
       removeObject host mesh_name)))))))"

text \<open>Lines 282 to 304, the branch of a valid refined shape.\<close>

definition convert_finish ::
  "('m, 't, 's) host \<Rightarrow> handle \<Rightarrow> bool \<Rightarrow> string \<Rightarrow> handle \<Rightarrow> handle \<Rightarrow> handle \<Rightarrow>
   (exn, bool \<times> string option, ('m, 's) document) prog" where
  "convert_finish host mesh_obj base_transaction base_name shape_obj solid_obj refined_obj =
     seq (wrap_body host base_name refined_obj) (\<lambda>made.
     seq (remove_intermediates host mesh_obj shape_obj solid_obj refined_obj) (\<lambda>u6.
     seq (recompute host) (\<lambda>u7.
     seq (get_Name (snd made)) (\<lambda>logged_name.
     seq (if \<not> base_transaction then commitTransaction host else succeed ()) (\<lambda>u8.
     seq (get_Name (snd made)) (\<lambda>body_name.
       succeed (True, Some body_name)))))))"

text \<open>Lines 262 to 307, the steps after \<^verbatim>\<open>base_name\<close> is bound.\<close>

definition convert_steps ::
  "('m, 't, 's) host \<Rightarrow> handle \<Rightarrow> bool \<Rightarrow> string \<Rightarrow>
   (exn, bool \<times> string option, ('m, 's) document) prog" where
  "convert_steps host mesh_obj base_transaction base_name =
     seq (convert_build host mesh_obj base_name) (\<lambda>built.
       case built of (shape_obj, solid_obj, refined_obj, valid) \<Rightarrow>
         if valid then
           convert_finish host mesh_obj base_transaction base_name shape_obj solid_obj refined_obj
         else raise_exn (ValueError ''Refined solid was invalid''))"

text \<open>
  Lines 250 to 307, the body of the \<^verbatim>\<open>try\<close>. An exception leaves it together with the
  binding of \<^verbatim>\<open>base_name\<close> at that moment, which the handler reads.
\<close>

definition convert_try ::
  "('m, 't, 's) host \<Rightarrow> handle \<Rightarrow> bool \<Rightarrow>
   (exn \<times> string option, bool \<times> string option, ('m, 's) document) prog" where
  "convert_try host mesh_obj base_transaction =
     seq (with_locals None (evaluate_mesh_automated host mesh_obj)) (\<lambda>evaluation_result.
       if evaluation_result \<noteq> ''proceed'' then
         seq (with_locals None
                (if \<not> base_transaction then abortTransaction host else succeed ())) (\<lambda>u0.
           succeed (False, None))
       else
         seq (with_locals None (get_Name mesh_obj)) (\<lambda>logged_name.
         seq (with_locals None (get_Name mesh_obj)) (\<lambda>base_name.
           with_locals (Some base_name)
             (convert_steps host mesh_obj base_transaction base_name))))"

text \<open>
  Lines 318 to 322: each removal has its own \<^verbatim>\<open>try\<close> with a bare \<^verbatim>\<open>except: pass\<close>.
\<close>

fun remove_temp_objects ::
  "('m, 't, 's) host \<Rightarrow> string list \<Rightarrow> (exn, unit, ('m, 's) document) prog" where
  "remove_temp_objects host [] = succeed ()"
| "remove_temp_objects host (obj_name # rest) =
     (\<lambda>d. remove_temp_objects host rest (snd (removeObject host obj_name d)))"

definition temp_names :: "string \<Rightarrow> string list" where
  "temp_names base_name =
     [base_name @ ''_shape'', base_name @ ''_solid'',
      base_name @ ''_solid_refined'', base_name @ ''_solid_simple'']"

text \<open>
  Lines 309 to 328, the handler. With \<^verbatim>\<open>base_name\<close> unbound the list comprehension of
  line 311 raises; line 327 reads \<^verbatim>\<open>mesh_obj.Name\<close> for the log.
\<close>

definition convert_except ::
  "('m, 't, 's) host \<Rightarrow> handle \<Rightarrow> bool \<Rightarrow> exn \<times> string option \<Rightarrow>
   (exn, bool \<times> string option, ('m, 's) document) prog" where
  "convert_except host mesh_obj base_transaction el =
     (case snd el of
        None \<Rightarrow> raise_exn UnboundLocalError
      | Some base_name \<Rightarrow>
          (\<lambda>d.
             (let temp_objects = filter (\<lambda>name. getObject d name \<noteq> None) (temp_names base_name)
              in seq (remove_temp_objects host temp_objects) (\<lambda>u0.
                 seq (if \<not> base_transaction then abortTransaction host else succeed ()) (\<lambda>u1.
                 seq (get_Name mesh_obj) (\<lambda>logged_name.
                   succeed (False, None)))) d)))"

text \<open>Lines 246 to 247.\<close>

definition enter_transaction ::
  "('m, 't, 's) host \<Rightarrow> handle \<Rightarrow> bool \<Rightarrow> (exn, unit, ('m, 's) document) prog" where
  "enter_transaction host mesh_obj base_transaction =
     (if \<not> base_transaction
      then seq (get_Name mesh_obj) (\<lambda>name. openTransaction host (''Convert Mesh: '' @ name))
      else succeed ())"

definition convert_single_mesh ::
  "('m, 't, 's) host \<Rightarrow> handle \<Rightarrow> bool \<Rightarrow>
   (exn, bool \<times> string option, ('m, 's) document) prog" where
  "convert_single_mesh host mesh_obj base_transaction =
     seq (enter_transaction host mesh_obj base_transaction) (\<lambda>u0.
       try_except
         (convert_try host mesh_obj base_transaction)
         (convert_except host mesh_obj base_transaction))"

section \<open>The batch: \<^verbatim>\<open>convert_all_document_meshes\<close>\<close>

text \<open>
  The dict that the function returns. The early return of line 349 has the four counts
  only: a key that a dict does not have is \<open>None\<close> here.
\<close>

record run_summary =
  total_meshes :: nat
  converted :: nat
  failed :: nat
  skipped :: nat
  converted_objects :: "(string \<times> string option) list option"
  failed_objects :: "string list option"
  skipped_objects :: "string list option"

text \<open>Lines 380 to 398, one round of the loop.\<close>

definition process_mesh ::
  "('m, 't, 's) host \<Rightarrow> handle \<Rightarrow> run_summary \<Rightarrow> (exn, run_summary, ('m, 's) document) prog" where
  "process_mesh host mesh_obj results =
     seq (get_Name mesh_obj) (\<lambda>logged_name.
     seq (get_Name mesh_obj) (\<lambda>original_name.
     seq (convert_single_mesh host mesh_obj True) (\<lambda>outcome.
       (case outcome of (success, body_name) \<Rightarrow>
          if success then
            succeed (results\<lparr>converted := converted results + 1,
                       converted_objects :=
                         map_option (\<lambda>xs. xs @ [(original_name, body_name)])
                           (converted_objects results)\<rparr>)
          else
            (\<lambda>d.
               if (case getObject d original_name of
                     None \<Rightarrow> False
                   | Some ob \<Rightarrow> TypeId ob = ''Mesh::Feature'')
               then (Inr (results\<lparr>skipped := skipped results + 1,
                            skipped_objects :=
                              map_option (\<lambda>xs. xs @ [original_name]) (skipped_objects results)\<rparr>), d)
               else (Inr (results\<lparr>failed := failed results + 1,
                            failed_objects :=
                              map_option (\<lambda>xs. xs @ [original_name]) (failed_objects results)\<rparr>), d))))))"

fun process_meshes ::
  "('m, 't, 's) host \<Rightarrow> handle list \<Rightarrow> run_summary \<Rightarrow> (exn, run_summary, ('m, 's) document) prog" where
  "process_meshes host [] results = succeed results"
| "process_meshes host (mesh_obj # rest) results =
     (\<lambda>d. case process_mesh host mesh_obj results d of
            (Inl e, d') \<Rightarrow> (Inl e, d')
          | (Inr results', d') \<Rightarrow> process_meshes host rest results' d')"

definition initial_results :: "nat \<Rightarrow> run_summary" where
  "initial_results n =
     \<lparr>total_meshes = n, converted = 0, failed = 0, skipped = 0,
      converted_objects = Some [], failed_objects = Some [], skipped_objects = Some []\<rparr>"

definition empty_results :: run_summary where
  "empty_results =
     \<lparr>total_meshes = 0, converted = 0, failed = 0, skipped = 0,
      converted_objects = None, failed_objects = None, skipped_objects = None\<rparr>"

text \<open>
  Lines 378 to 401, the body of the \<^verbatim>\<open>try\<close>: the loop, then the commit of the master
  transaction.
\<close>

definition batch_try ::
  "('m, 't, 's) host \<Rightarrow> handle list \<Rightarrow> (exn, run_summary, ('m, 's) document) prog" where
  "batch_try host found =
     seq (process_meshes host found (initial_results (length found))) (\<lambda>results.
     seq (commitTransaction host) (\<lambda>u0.
       succeed results))"

text \<open>
  Lines 332 to 445. The argument and the second result are \<^verbatim>\<open>FreeCAD.ActiveDocument\<close>,
  \<open>None\<close> when there is none; the first result is the function's return value, \<open>Inr None\<close>
  for Python's \<^verbatim>\<open>None\<close>. The clock and the console are not modelled.
\<close>

definition convert_all_document_meshes ::
  "('m, 't, 's) host \<Rightarrow> bool \<Rightarrow> ('m, 's) document option \<Rightarrow>
   (exn + run_summary option) \<times> ('m, 's) document option" where
  "convert_all_document_meshes host show_summary doc =
     (case doc of
        None \<Rightarrow> (Inr None, None)
      | Some d \<Rightarrow>
          (case find_all_mesh_objects (Some d) of (found, summary) \<Rightarrow>
             if found = [] then (Inr (Some empty_results), Some d)
             else
               (case openTransaction host ''Convert All Document Meshes'' d of
                  (Inl e, d1) \<Rightarrow> (Inl e, Some d1)
                | (Inr u0, d1) \<Rightarrow>
                    (case batch_try host found d1 of
                       (Inl e, d2) \<Rightarrow>
                         (case abortTransaction host d2 of
                            (Inl e', d3) \<Rightarrow> (Inl e', Some d3)
                          | (Inr u1, d3) \<Rightarrow> (Inr None, Some d3))
                     | (Inr results, d2) \<Rightarrow>
                         (case recompute host d2 of
                            (Inl e, d3) \<Rightarrow> (Inl e, Some d3)
                          | (Inr u2, d3) \<Rightarrow> (Inr (Some results), Some d3))))))"

section \<open>Views of a document and of a computation\<close>

text \<open>The names of the objects, in order.\<close>

definition names :: "('m, 's) document \<Rightarrow> string list" where
  "names d = map Name (Objects d)"

text \<open>The transaction state of a document: the open transaction and the log.\<close>

definition txn :: "('m, 's) document \<Rightarrow> (string \<times> ('m, 's) doc_object list) option \<times> txn_event list" where
  "txn d = (transaction d, history d)"

text \<open>\<open>keeps p m\<close>: whatever \<open>m\<close> does, the view \<open>p\<close> of the document is afterwards what it was.\<close>

definition keeps :: "('st \<Rightarrow> 'x) \<Rightarrow> ('e, 'a, 'st) prog \<Rightarrow> bool" where
  "keeps p m = (\<forall>d r d'. m d = (r, d') \<longrightarrow> p d' = p d)"

text \<open>
  \<open>extends cs d d'\<close>: the objects of \<open>d\<close> are all still there in \<open>d'\<close>, in their order and
  with their names, types and mesh data; after them come new objects whose names are \<open>cs\<close>;
  the transaction state is the same.
\<close>

definition extends :: "string list \<Rightarrow> ('m, 's) document \<Rightarrow> ('m, 's) document \<Rightarrow> bool" where
  "extends cs d d' =
     (\<exists>old new. Objects d' = old @ new \<and>
        map Name old = map Name (Objects d) \<and>
        map TypeId old = map TypeId (Objects d) \<and>
        map Mesh old = map Mesh (Objects d) \<and>
        map Name new = cs \<and> txn d' = txn d)"

text \<open>
  \<open>stage ps m\<close>: started where the names \<open>ps\<close> are unused, \<open>m\<close> only adds objects, named by a
  prefix of \<open>ps\<close>, and all of \<open>ps\<close> when it returns normally.
\<close>

definition stage :: "string list \<Rightarrow> ('e, 'a, ('m, 's) document) prog \<Rightarrow> bool" where
  "stage ps m =
     (\<forall>d r d'. distinct ps \<and> set ps \<inter> set (names d) = {} \<and> m d = (r, d') \<longrightarrow>
        (\<exists>cs. prefix cs ps \<and> (\<not> isl r \<longrightarrow> cs = ps) \<and> extends cs d d'))"

text \<open>
  The order of the repair steps as the specification gives it: the fix of the
  self-intersections and the harmonization of the normals first, when the mesh has
  self-intersections; then the five general steps; then the filling of holes.
\<close>

definition pipeline_order :: "bool \<Rightarrow> string list" where
  "pipeline_order initial =
     (if initial
      then [''Fix self-intersections (priority)'',
            ''Harmonize Normals (after self-intersection fix)'']
      else [])
     @ map snd repair_methods @ [''Fill small holes'']"

text \<open>What one general step leaves of the mesh, whether it raises or not.\<close>

definition general_step :: "('m, 't, 's) host \<Rightarrow> string \<times> string \<Rightarrow> 'm \<Rightarrow> 'm" where
  "general_step host md m = (if hasattr host m (fst md) then snd (getattr host (fst md) m) else m)"

text \<open>A general step counts as applied: the mesh has the method and the call returns.\<close>

definition step_returns :: "('m, 't, 's) host \<Rightarrow> 'm \<Rightarrow> string \<times> string \<Rightarrow> bool" where
  "step_returns host m md = (hasattr host m (fst md) \<and> fst (getattr host (fst md) m) = None)"

text \<open>
  The point and facet counts of the mesh of an object, as lines 27 and 170 read them;
  \<open>None\<close> when the object or its mesh is not there.
\<close>

definition mesh_counts :: "('m, 't, 's) host \<Rightarrow> handle \<Rightarrow> ('m, 's) document \<Rightarrow> (nat \<times> nat) option" where
  "mesh_counts host h d =
     (case fst (get_Mesh h d) of
        Inl e \<Rightarrow> None
      | Inr m \<Rightarrow> Some (CountPoints host m, CountFacets host m))"

text \<open>
  Lines 262 to 295, with the \<^verbatim>\<open>raise\<close> of line 307: the conversion up to and including the
  removal of the original mesh. This is \<open>convert_steps\<close> without lines 297 to 304 (the last
  recompute, the log, the commit and the return).
\<close>

definition convert_until_removal ::
  "('m, 't, 's) host \<Rightarrow> handle \<Rightarrow> string \<Rightarrow> (exn, handle \<times> handle, ('m, 's) document) prog" where
  "convert_until_removal host mesh_obj base_name =
     seq (convert_build host mesh_obj base_name) (\<lambda>built.
       case built of (shape_obj, solid_obj, refined_obj, valid) \<Rightarrow>
         if valid then
           seq (wrap_body host base_name refined_obj) (\<lambda>made.
           seq (remove_intermediates host mesh_obj shape_obj solid_obj refined_obj) (\<lambda>u6.
             succeed made))
         else raise_exn (ValueError ''Refined solid was invalid''))"

section \<open>A host to run the script on\<close>

text \<open>
  A small kernel for the examples. A mesh is the answers it gives, with its point and facet
  counts; a shape records how it was made. The kernel's repairs return normally: fixing the
  self-intersections and removing the non-manifolds clear the flag in question, and the
  other steps change nothing. A refined solid is valid when the mesh it comes from has at
  least four facets. No call on the document raises, and the name that \<open>addObject\<close>
  chooses when the requested one is taken is longer than every name in use.
\<close>

record plain_mesh =
  pm_solid :: bool
  pm_non_manifold :: bool
  pm_self_intersecting :: bool
  pm_points :: nat
  pm_facets :: nat

datatype plain_shape =
  NullShape | FromMesh nat | ShellOf plain_shape | SolidOf plain_shape | Refined plain_shape

primrec longest :: "string list \<Rightarrow> nat" where
  "longest [] = 0"
| "longest (x # xs) = max (length x) (longest xs)"

definition plain_host :: "(plain_mesh, plain_mesh, plain_shape) host" where
  "plain_host =
     \<lparr>Topology = (\<lambda>m. m),
      Mesh_Mesh = Inr,
      isSolid = (\<lambda>m. Inr (pm_solid m)),
      hasNonManifolds = (\<lambda>m. Inr (pm_non_manifold m)),
      hasSelfIntersections = (\<lambda>m. Inr (pm_self_intersecting m)),
      CountPoints = pm_points,
      CountFacets = pm_facets,
      Volume = (\<lambda>m. Inr 1),
      Area = (\<lambda>m. Inr 6),
      fixSelfIntersections = (\<lambda>m. (None, m\<lparr>pm_self_intersecting := False\<rparr>)),
      harmonizeNormals = (\<lambda>m. (None, m)),
      hasattr = (\<lambda>m name. name \<in> set (map fst repair_methods)),
      getattr = (\<lambda>name m.
        (None, if name = ''removeNonManifolds'' then m\<lparr>pm_non_manifold := False\<rparr> else m)),
      fillupHoles = (\<lambda>n m. (None, m)),
      makeShapeFromMesh = (\<lambda>t tol b. Inr (FromMesh (pm_facets t))),
      Part_Shell = (\<lambda>s. Inr (ShellOf s)),
      Part_Solid = (\<lambda>s. Inr (SolidOf s)),
      nullShape = NullShape,
      refine = Refined,
      bool_Shape = (\<lambda>s. True),
      isValid = (\<lambda>s. Inr (case s of
                   Refined (SolidOf (ShellOf (FromMesh n))) \<Rightarrow> 4 \<le> n | _ \<Rightarrow> False)),
      getUniqueObjectName = (\<lambda>taken name. name @ replicate (Suc (longest taken)) (CHR ''0'')),
      raises = (\<lambda>c d. False)\<rparr>"

text \<open>The same kernel with every repair step raising.\<close>

definition failing_host :: "(plain_mesh, plain_mesh, plain_shape) host" where
  "failing_host =
     plain_host\<lparr>fixSelfIntersections := (\<lambda>m. (Some HostError, m)),
                 getattr := (\<lambda>name m. (Some HostError, m)),
                 fillupHoles := (\<lambda>n m. (Some HostError, m))\<rparr>"

text \<open>The same kernel with a query that raises.\<close>

definition deaf_host :: "(plain_mesh, plain_mesh, plain_shape) host" where
  "deaf_host = plain_host\<lparr>hasNonManifolds := (\<lambda>m. Inl HostError)\<rparr>"

text \<open>The same kernel with a recompute that raises once the document holds a body.\<close>

definition stalling_host :: "(plain_mesh, plain_mesh, plain_shape) host" where
  "stalling_host =
     plain_host\<lparr>raises := (\<lambda>c d. c = Recompute \<and>
                    list_ex (\<lambda>ob. TypeId ob = ''PartDesign::Body'') (Objects d))\<rparr>"

text \<open>The same kernel with a document that refuses to remove the object \<^verbatim>\<open>Cube\<close>.\<close>

definition sticky_host :: "(plain_mesh, plain_mesh, plain_shape) host" where
  "sticky_host = plain_host\<lparr>raises := (\<lambda>c d. c = RemoveObject ''Cube'')\<rparr>"

text \<open>The same kernel with an abort that raises.\<close>

definition locked_host :: "(plain_mesh, plain_mesh, plain_shape) host" where
  "locked_host = plain_host\<lparr>raises := (\<lambda>c d. c = AbortTransaction)\<rparr>"

subsection \<open>Meshes\<close>

definition clean_mesh :: plain_mesh where
  "clean_mesh = \<lparr>pm_solid = True, pm_non_manifold = False, pm_self_intersecting = False,
                  pm_points = 8, pm_facets = 12\<rparr>"

definition tangled_mesh :: plain_mesh where
  "tangled_mesh = \<lparr>pm_solid = True, pm_non_manifold = False, pm_self_intersecting = True,
                  pm_points = 8, pm_facets = 12\<rparr>"

definition open_mesh :: plain_mesh where
  "open_mesh = \<lparr>pm_solid = False, pm_non_manifold = True, pm_self_intersecting = False,
                 pm_points = 8, pm_facets = 10\<rparr>"

definition empty_mesh :: plain_mesh where
  "empty_mesh = \<lparr>pm_solid = True, pm_non_manifold = False, pm_self_intersecting = False,
                  pm_points = 0, pm_facets = 0\<rparr>"

definition thin_mesh :: plain_mesh where
  "thin_mesh = \<lparr>pm_solid = True, pm_non_manifold = False, pm_self_intersecting = False,
                 pm_points = 3, pm_facets = 3\<rparr>"

definition knotted_mesh :: plain_mesh where
  "knotted_mesh = thin_mesh\<lparr>pm_self_intersecting := True\<rparr>"

subsection \<open>Documents\<close>

definition mesh_feature :: "string \<Rightarrow> plain_mesh \<Rightarrow> (plain_mesh, plain_shape) doc_object" where
  "mesh_feature n m =
     \<lparr>Name = n, TypeId = ''Mesh::Feature'', Mesh = Some m, Shape = None,
      Source = None, BaseFeature = None, Visibility = True\<rparr>"

definition doc_of :: "(plain_mesh, plain_shape) doc_object list \<Rightarrow> (plain_mesh, plain_shape) document" where
  "doc_of obs = \<lparr>Objects = obs, transaction = None, history = []\<rparr>"

definition clean_doc :: "(plain_mesh, plain_shape) document" where
  "clean_doc = doc_of [mesh_feature ''Cube'' clean_mesh]"

definition tangled_doc :: "(plain_mesh, plain_shape) document" where
  "tangled_doc = doc_of [mesh_feature ''Cube'' tangled_mesh]"

definition open_doc :: "(plain_mesh, plain_shape) document" where
  "open_doc = doc_of [mesh_feature ''Cube'' open_mesh]"

definition empty_doc :: "(plain_mesh, plain_shape) document" where
  "empty_doc = doc_of [mesh_feature ''Empty'' empty_mesh]"

definition thin_doc :: "(plain_mesh, plain_shape) document" where
  "thin_doc = doc_of [mesh_feature ''Cube'' thin_mesh]"

definition knotted_doc :: "(plain_mesh, plain_shape) document" where
  "knotted_doc = doc_of [mesh_feature ''Cube'' knotted_mesh]"

text \<open>A mesh whose name is one of the names that the conversion of \<^verbatim>\<open>Cube\<close> uses.\<close>

definition crowded_doc :: "(plain_mesh, plain_shape) document" where
  "crowded_doc = doc_of [mesh_feature ''Cube'' thin_mesh, mesh_feature ''Cube_solid_simple'' open_mesh]"

text \<open>A second mesh, whose name is the one that line 263 asks for.\<close>

definition shadowed_doc :: "(plain_mesh, plain_shape) document" where
  "shadowed_doc = doc_of [mesh_feature ''Cube'' thin_mesh, mesh_feature ''Cube_shape'' clean_mesh]"

text \<open>A mesh object of a type other than \<^verbatim>\<open>Mesh::Feature\<close>.\<close>

definition sphere_doc :: "(plain_mesh, plain_shape) document" where
  "sphere_doc = doc_of [(mesh_feature ''Ball'' open_mesh)\<lparr>TypeId := ''Mesh::Sphere''\<rparr>]"

text \<open>The document after the conversion of the clean cube.\<close>

definition converted_doc :: "(plain_mesh, plain_shape) document" where
  "converted_doc =
     doc_of [\<lparr>Name = ''Cube_solid_simple'', TypeId = ''Part::Feature'', Mesh = None,
              Shape = Some (Refined (SolidOf (ShellOf (FromMesh 12)))),
              Source = None, BaseFeature = None, Visibility = False\<rparr>,
             \<lparr>Name = ''Cube_Body'', TypeId = ''PartDesign::Body'', Mesh = None,
              Shape = Some NullShape, Source = None,
              BaseFeature = Some ''Cube_solid_simple'', Visibility = True\<rparr>]"

text \<open>The documents with the transaction of \<^verbatim>\<open>convert_single_mesh\<close> open.\<close>

definition thin_opened :: "(plain_mesh, plain_shape) document" where
  "thin_opened = thin_doc\<lparr>transaction := Some (''Convert Mesh: Cube'', Objects thin_doc),
                           history := [Opened ''Convert Mesh: Cube'']\<rparr>"

definition clean_opened :: "(plain_mesh, plain_shape) document" where
  "clean_opened = clean_doc\<lparr>transaction := Some (''Convert Mesh: Cube'', Objects clean_doc),
                            history := [Opened ''Convert Mesh: Cube'']\<rparr>"

section \<open>Properties\<close>

subsection \<open>The repair passes\<close>

lemmas prog_defs = succeed_def raise_exn_def of_result_def seq_def try_except_def with_locals_def

lemma apply_repair_method_mesh:
  "fst (apply_repair_method host md (m, a)) =
     (if hasattr host m (fst md) then snd (getattr host (fst md) m) else m)"
  by (auto simp: apply_repair_method_def split: prod.splits option.splits sum.splits)

lemma apply_repair_method_applied:
  "snd (apply_repair_method host md (m, a)) =
     (if hasattr host m (fst md) \<and> fst (getattr host (fst md) m) = None then a @ [snd md] else a)"
  by (auto simp: apply_repair_method_def split: prod.splits option.splits sum.splits)

lemma apply_repair_methods_applied:
  "\<exists>ys. snd (apply_repair_methods host mds (m, a)) = a @ ys \<and> subseq ys (map snd mds)"
proof (induction mds arbitrary: m a)
  case Nil
  then show ?case by simp
next
  case (Cons md mds)
  obtain m' a' where st: "apply_repair_method host md (m, a) = (m', a')"
    by (cases "apply_repair_method host md (m, a)")
  from Cons.IH [of m' a'] obtain ys where
    ys: "snd (apply_repair_methods host mds (m', a')) = a' @ ys" "subseq ys (map snd mds)"
    by blast
  have a': "a' = a \<or> a' = a @ [snd md]"
    using apply_repair_method_applied [of host md m a] st by (auto split: if_splits)
  then show ?case
  proof
    assume "a' = a"
    with ys st show ?thesis by (auto intro: subseq_Cons')
  next
    assume "a' = a @ [snd md]"
    with ys st show ?thesis by (auto intro!: exI [of _ "snd md # ys"])
  qed
qed

lemma apply_repair_methods_mesh:
  "fst (apply_repair_methods host mds (m, a)) =
     fold (\<lambda>md m. if hasattr host m (fst md) then snd (getattr host (fst md) m) else m) mds m"
proof (induction mds arbitrary: m a)
  case Nil
  then show ?case by simp
next
  case (Cons md mds)
  obtain m' a' where st: "apply_repair_method host md (m, a) = (m', a')"
    by (cases "apply_repair_method host md (m, a)")
  with apply_repair_method_mesh [of host md m a] Cons.IH [of m' a']
  show ?case by simp
qed

lemma priority_pass_applied:
  "subseq (fst (snd (priority_pass host m)))
     [''Fix self-intersections (priority)'', ''Harmonize Normals (after self-intersection fix)'']"
  by (simp add: priority_pass_def split: prod.splits option.splits sum.splits)

lemma priority_pass_mesh:
  "fst (priority_pass host m) = snd (fixSelfIntersections host m) \<or>
   fst (priority_pass host m) = snd (harmonizeNormals host (snd (fixSelfIntersections host m)))"
  by (auto simp: priority_pass_def split: prod.splits option.splits sum.splits)

lemma priority_pass_raising:
  "fst (fixSelfIntersections host m) \<noteq> None \<Longrightarrow> fst (snd (priority_pass host m)) = []"
  by (auto simp: priority_pass_def split: prod.splits option.splits sum.splits)

lemma fill_small_holes_mesh:
  "fst (fill_small_holes host (m, a)) = snd (fillupHoles host 100 m)"
  by (auto simp: fill_small_holes_def split: prod.splits option.splits sum.splits)

lemma fill_small_holes_applied:
  "snd (fill_small_holes host (m, a)) =
     (if fst (fillupHoles host 100 m) = None then a @ [''Fill small holes''] else a)"
  by (auto simp: fill_small_holes_def split: prod.splits option.splits sum.splits)

lemma apply_repair_methods_raising:
  "\<forall>md \<in> set mds. \<forall>m. hasattr host m (fst md) \<longrightarrow> fst (getattr host (fst md) m) \<noteq> None \<Longrightarrow>
   snd (apply_repair_methods host mds (m, a)) = a"
proof (induction mds arbitrary: m a)
  case Nil
  then show ?case by simp
next
  case (Cons md mds)
  obtain m' a' where st: "apply_repair_method host md (m, a) = (m', a')"
    by (cases "apply_repair_method host md (m, a)")
  have "a' = a"
    using apply_repair_method_applied [of host md m a] st Cons.prems by auto
  with Cons st show ?case by simp
qed

lemma repair_passes_initial [simp]:
  "initial_has_self_intersections (repair_passes host m0 initial) = initial"
  by (simp add: repair_passes_def split: prod.splits)

lemma repair_passes_flag:
  "self_intersections_fixed_on_mutable (repair_passes host m0 initial) =
     (initial \<and> snd (snd (priority_pass host m0)))"
  by (simp add: repair_passes_def split: prod.splits)

lemma repair_passes_applied:
  "subseq (repairs_applied (repair_passes host m0 initial)) (pipeline_order initial)"
proof -
  obtain m1 a1 fx where p: "(if initial then priority_pass host m0 else (m0, [], False)) = (m1, a1, fx)"
    by (cases "if initial then priority_pass host m0 else (m0, [], False)") auto
  have a1: "subseq a1 (if initial
      then [''Fix self-intersections (priority)'',
            ''Harmonize Normals (after self-intersection fix)'']
      else [])"
    using p priority_pass_applied [of host m0] by (auto split: if_splits)
  obtain m2 a2 where g: "apply_repair_methods host repair_methods (m1, a1) = (m2, a2)"
    by (cases "apply_repair_methods host repair_methods (m1, a1)")
  from apply_repair_methods_applied [of host repair_methods m1 a1] g
  obtain ys where ys: "a2 = a1 @ ys" "subseq ys (map snd repair_methods)" by auto
  obtain m3 a3 where f: "fill_small_holes host (m2, a2) = (m3, a3)"
    by (cases "fill_small_holes host (m2, a2)")
  obtain zs where zs: "a3 = a2 @ zs" "subseq zs [''Fill small holes'']"
    using fill_small_holes_applied [of host m2 a2] f by (auto split: if_splits)
  have "subseq (a1 @ ys @ zs) (pipeline_order initial)"
    unfolding pipeline_order_def using a1 ys(2) zs(2) by (intro list_emb_append_mono)
  moreover have "repairs_applied (repair_passes host m0 initial) = a3"
    by (simp add: repair_passes_def p g f)
  ultimately show ?thesis using ys zs by simp
qed

lemma repair_passes_mesh:
  "mutable_mesh (repair_passes host m0 initial) =
     snd (fillupHoles host 100
       (fold (general_step host) repair_methods
          (if initial then fst (priority_pass host m0) else m0)))"
proof -
  obtain m1 a1 fx where p: "(if initial then priority_pass host m0 else (m0, [], False)) = (m1, a1, fx)"
    by (cases "if initial then priority_pass host m0 else (m0, [], False)") auto
  obtain m2 a2 where g: "apply_repair_methods host repair_methods (m1, a1) = (m2, a2)"
    by (cases "apply_repair_methods host repair_methods (m1, a1)")
  obtain m3 a3 where f: "fill_small_holes host (m2, a2) = (m3, a3)"
    by (cases "fill_small_holes host (m2, a2)")
  have gs: "general_step host = (\<lambda>md m. if hasattr host m (fst md) then snd (getattr host (fst md) m) else m)"
    by (intro ext) (simp add: general_step_def)
  have "m2 = fold (general_step host) repair_methods m1"
    using apply_repair_methods_mesh [of host repair_methods m1 a1] g by (simp add: gs)
  moreover have "m3 = snd (fillupHoles host 100 m2)"
    using fill_small_holes_mesh [of host m2 a2] f by simp
  moreover have "m1 = (if initial then fst (priority_pass host m0) else m0)"
    using p by (auto split: if_splits)
  moreover have "mutable_mesh (repair_passes host m0 initial) = m3"
    by (simp add: repair_passes_def p g f)
  ultimately show ?thesis by simp
qed

lemma repair_passes_all_raising:
  assumes "\<forall>m. fst (fixSelfIntersections host m) \<noteq> None"
    and "\<forall>n m. hasattr host m n \<longrightarrow> fst (getattr host n m) \<noteq> None"
    and "\<forall>m. fst (fillupHoles host 100 m) \<noteq> None"
  shows "repairs_applied (repair_passes host m0 initial) = []"
proof -
  obtain m1 a1 fx where p: "(if initial then priority_pass host m0 else (m0, [], False)) = (m1, a1, fx)"
    by (cases "if initial then priority_pass host m0 else (m0, [], False)") auto
  have a1: "a1 = []"
    using p priority_pass_raising [of host m0] assms(1) by (auto split: if_splits)
  obtain m2 a2 where g: "apply_repair_methods host repair_methods (m1, a1) = (m2, a2)"
    by (cases "apply_repair_methods host repair_methods (m1, a1)")
  have a2: "a2 = a1"
    using apply_repair_methods_raising [of repair_methods host m1 a1] assms(2) g by auto
  obtain m3 a3 where f: "fill_small_holes host (m2, a2) = (m3, a3)"
    by (cases "fill_small_holes host (m2, a2)")
  have a3: "a3 = a2"
    using fill_small_holes_applied [of host m2 a2] f assms(3) by auto
  have "repairs_applied (repair_passes host m0 initial) = a3"
    by (simp add: repair_passes_def p g f)
  with a1 a2 a3 show ?thesis by simp
qed

lemma get_Mesh_get_Name:
  "get_Mesh h d = (Inr m, d') \<Longrightarrow> get_Name h d = (Inr h, d)"
  by (auto simp: get_Mesh_def get_Name_def getObject_def split: option.splits dest: find_Some_iff [THEN iffD1])

lemma repair_steps_run:
  assumes "get_Mesh mesh_obj d = (Inr om, d)"
    and "Mesh_Mesh host (Topology host om) = Inr m0"
    and "isSolid host m0 = Inr sd"
    and "hasSelfIntersections host m0 = Inr initial"
  shows "repair_steps host mesh_obj d = (Inr (repair_passes host m0 initial), d)"
  using assms get_Mesh_get_Name [OF assms(1)]
  by (simp add: repair_steps_def prog_defs)

lemma repair_steps_inv:
  assumes "repair_steps host mesh_obj d = (Inr L, d')"
  shows "\<exists>om m0 sd initial. get_Mesh mesh_obj d = (Inr om, d) \<and>
           Mesh_Mesh host (Topology host om) = Inr m0 \<and> isSolid host m0 = Inr sd \<and>
           hasSelfIntersections host m0 = Inr initial \<and> L = repair_passes host m0 initial \<and> d' = d"
  using assms
  by (auto simp: repair_steps_def prog_defs get_Mesh_def get_Name_def
      split: prod.splits sum.splits option.splits)

lemma attempt_no_repairs:
  assumes "repair_steps host mesh_obj d = (Inr L, d)" and "repairs_applied L = []"
  shows "attempt_comprehensive_manual_repair host mesh_obj d = (Inr False, d)"
  using assms by (simp add: attempt_comprehensive_manual_repair_def repair_commit_def prog_defs)

subsection \<open>Reading an object back after a write and a recompute\<close>

lemma find_map_Name:
  assumes "\<And>ob. Name (f ob) = Name ob"
  shows "find (\<lambda>ob. Name ob = n) (map f obs) = map_option f (find (\<lambda>ob. Name ob = n) obs)"
  using assms by (induction obs) auto

lemma Name_recompute_object [simp]: "Name (recompute_object host d ob) = Name ob"
  by (simp add: recompute_object_def split: option.splits)

lemma Mesh_recompute_object [simp]: "Mesh (recompute_object host d ob) = Mesh ob"
  by (simp add: recompute_object_def split: option.splits)

lemma TypeId_recompute_object [simp]: "TypeId (recompute_object host d ob) = TypeId ob"
  by (simp add: recompute_object_def split: option.splits)

lemma getObject_recompute:
  "recompute host d = (Inr u, d') \<Longrightarrow>
   getObject d' n = map_option (recompute_object host d) (getObject d n)"
  by (auto simp: recompute_def getObject_def find_map_Name split: if_splits)

lemma get_Mesh_recompute:
  "recompute host d = (Inr u, d') \<Longrightarrow> fst (get_Mesh h d') = fst (get_Mesh h d)"
  by (auto simp: get_Mesh_def getObject_recompute split: option.splits)

lemma snd_get_Mesh [simp]: "snd (get_Mesh h d) = d"
  by (simp add: get_Mesh_def split: option.splits)

lemma snd_get_Name [simp]: "snd (get_Name h d) = d"
  by (simp add: get_Name_def split: option.splits)

lemma recompute_total:
  "\<not> raises host Recompute d \<Longrightarrow> \<exists>d'. recompute host d = (Inr (), d')"
  by (simp add: recompute_def)

lemma getObject_update_object:
  "getObject (update_object h f d) n =
     map_option (\<lambda>ob. if Name ob = h then f ob else ob) (getObject d n)"
  if "\<And>ob. Name (f ob) = Name ob"
  using that by (simp add: update_object_def getObject_def find_map_Name)

lemma set_Mesh_run:
  "get_Mesh h d = (Inr om, d) \<Longrightarrow>
   set_Mesh h m d = (Inr (), update_object h (\<lambda>ob. ob\<lparr>Mesh := Some m\<rparr>) d)"
  by (auto simp: set_Mesh_def set_attr_def get_Mesh_def split: option.splits)

lemma getObject_Some_Name: "getObject d n = Some ob \<Longrightarrow> Name ob = n"
  by (auto simp: getObject_def dest: find_Some_iff [THEN iffD1])

lemma get_Mesh_after_set:
  "get_Mesh h d = (Inr om, d) \<Longrightarrow>
   fst (get_Mesh h (update_object h (\<lambda>ob. ob\<lparr>Mesh := Some m\<rparr>) d)) = Inr m"
  by (auto simp: get_Mesh_def getObject_update_object
      split: option.splits dest: getObject_Some_Name)

subsection \<open>Claims about the repair pipeline\<close>

text \<open>
  Claim C9. In every run of the repair pipeline, \<^verbatim>\<open>self_intersections_fixed_on_mutable\<close> is
  true only if the mutable copy had self-intersections when line 31 asked: the flag is set
  inside the priority pass and nowhere else, and the pass runs only on that answer.
\<close>

theorem fixed_flag_only_on_priority_branch:
  assumes "repair_steps host mesh_obj d = (Inr L, d')"
    and "self_intersections_fixed_on_mutable L"
  shows "initial_has_self_intersections L \<and>
         (\<exists>om m0. get_Mesh mesh_obj d = (Inr om, d) \<and>
            Mesh_Mesh host (Topology host om) = Inr m0 \<and>
            hasSelfIntersections host m0 = Inr True)"
proof -
  from repair_steps_inv [OF assms(1)] obtain om m0 sd initial where
    r: "get_Mesh mesh_obj d = (Inr om, d)" "Mesh_Mesh host (Topology host om) = Inr m0"
       "hasSelfIntersections host m0 = Inr initial" "L = repair_passes host m0 initial"
    by blast
  from assms(2) r(4) have "initial" by (simp add: repair_passes_flag)
  with r show ?thesis by auto
qed

lemma tangled_steps:
  "repair_steps plain_host ''Cube'' tangled_doc = (Inr (repair_passes plain_host tangled_mesh True), tangled_doc)"
  by (rule repair_steps_run [where om = tangled_mesh and sd = True])
     (simp_all add: get_Mesh_def getObject_def tangled_doc_def doc_of_def mesh_feature_def
        plain_host_def tangled_mesh_def)

lemma tangled_passes:
  "repair_passes plain_host tangled_mesh True =
     \<lparr>mutable_mesh = clean_mesh,
      repairs_applied =
        [''Fix self-intersections (priority)'',
         ''Harmonize Normals (after self-intersection fix)'',
         ''Remove duplicate points'', ''Remove duplicate facets'',
         ''Remove invalid points'', ''Remove non-manifolds'',
         ''Remove surface folds'', ''Fill small holes''],
      self_intersections_fixed_on_mutable = True,
      initial_has_self_intersections = True\<rparr>"
  by (simp add: repair_passes_def priority_pass_def repair_methods_def apply_repair_method_def
      fill_small_holes_def plain_host_def tangled_mesh_def clean_mesh_def)

text \<open>A mesh with self-intersections that the kernel fixes: the flag is set, on the priority branch.\<close>

theorem fixed_flag_only_on_priority_branch_witness:
  "repair_steps plain_host ''Cube'' tangled_doc = (Inr (repair_passes plain_host tangled_mesh True), tangled_doc)
   \<and> self_intersections_fixed_on_mutable (repair_passes plain_host tangled_mesh True)
   \<and> initial_has_self_intersections (repair_passes plain_host tangled_mesh True)"
proof -
  have flag: "self_intersections_fixed_on_mutable (repair_passes plain_host tangled_mesh True)"
    by (simp add: tangled_passes)
  from fixed_flag_only_on_priority_branch [OF tangled_steps flag] tangled_steps flag
  show ?thesis by simp
qed



lemma repair_commit_result:
  assumes "repair_steps host mesh_obj d = (Inr L, d)"
    and "repairs_applied L \<noteq> []"
    and "seq (set_Mesh mesh_obj (mutable_mesh L)) (\<lambda>u.
         seq (recompute host) (\<lambda>u.
         seq (recompute host) (\<lambda>u. recompute host))) d = (Inr (), committed)"
    and "get_Mesh mesh_obj committed = (Inr current_mesh_data, committed)"
    and "isSolid host current_mesh_data = Inr is_solid"
    and "hasNonManifolds host current_mesh_data = Inr has_non_manifolds"
    and "hasSelfIntersections host current_mesh_data = Inr queried"
  shows "attempt_comprehensive_manual_repair host mesh_obj d =
           (Inr (is_solid \<and> \<not> has_non_manifolds \<and>
                 \<not> (if initial_has_self_intersections L
                    then \<not> self_intersections_fixed_on_mutable L
                    else queried)),
            committed)"
proof -
  have c: "seq (repair_steps host mesh_obj) (repair_commit host mesh_obj) d =
             repair_commit host mesh_obj L d"
    using assms(1) by (simp add: seq_def)
  obtain d1 where s1: "set_Mesh mesh_obj (mutable_mesh L) d = (Inr (), d1)"
    using assms(3) by (auto simp: seq_def split: prod.splits sum.splits)
  obtain d2 where s2: "recompute host d1 = (Inr (), d2)"
    using assms(3) s1 by (auto simp: seq_def split: prod.splits sum.splits)
  obtain d3 where s3: "recompute host d2 = (Inr (), d3)"
    using assms(3) s1 s2 by (auto simp: seq_def split: prod.splits sum.splits)
  have s4: "recompute host d3 = (Inr (), committed)"
    using assms(3) s1 s2 s3 by (auto simp: seq_def split: prod.splits sum.splits)
  have "repair_commit host mesh_obj L d =
           (Inr (is_solid \<and> \<not> has_non_manifolds \<and>
                 \<not> (if initial_has_self_intersections L
                    then \<not> self_intersections_fixed_on_mutable L
                    else queried)),
            committed)"
    using assms(2,4-7) s1 s2 s3 s4
    by (simp add: repair_commit_def prog_defs)
  with c show ?thesis
    by (simp add: attempt_comprehensive_manual_repair_def try_except_def)
qed

text \<open>
  Claim C4. With at least one step applied, the copy written back and the document
  recomputed, the repair returns \<^verbatim>\<open>True\<close> exactly when the committed mesh is solid and has no
  non-manifolds and the final self-intersection status is false; that status is the negation
  of the fixed flag when the copy had self-intersections at the start, and the value queried
  on the committed mesh otherwise.
\<close>

theorem repair_success_iff_committed_clean:
  assumes "repair_steps host mesh_obj d = (Inr L, d)"
    and "repairs_applied L \<noteq> []"
    and "seq (set_Mesh mesh_obj (mutable_mesh L)) (\<lambda>u.
         seq (recompute host) (\<lambda>u.
         seq (recompute host) (\<lambda>u. recompute host))) d = (Inr (), committed)"
    and "get_Mesh mesh_obj committed = (Inr current_mesh_data, committed)"
    and "isSolid host current_mesh_data = Inr is_solid"
    and "hasNonManifolds host current_mesh_data = Inr has_non_manifolds"
    and "hasSelfIntersections host current_mesh_data = Inr queried"
  shows "attempt_comprehensive_manual_repair host mesh_obj d =
           (Inr (is_solid \<and> \<not> has_non_manifolds \<and>
                 \<not> (if initial_has_self_intersections L
                    then \<not> self_intersections_fixed_on_mutable L
                    else queried)),
            committed)"
  by (rule repair_commit_result [OF assms])

lemma plain_never_raises [simp]: "raises plain_host c d = False"
  by (simp add: plain_host_def)

lemma tangled_committed:
  "seq (set_Mesh ''Cube'' clean_mesh) (\<lambda>u.
   seq (recompute plain_host) (\<lambda>u.
   seq (recompute plain_host) (\<lambda>u. recompute plain_host))) tangled_doc = (Inr (), clean_doc)"
  by (simp add: prog_defs set_Mesh_def set_attr_def update_object_def getObject_def recompute_def
      recompute_object_def tangled_doc_def clean_doc_def doc_of_def mesh_feature_def)

text \<open>The self-intersecting cube is repaired, written back, and found clean.\<close>

theorem repair_success_iff_committed_clean_witness:
  "attempt_comprehensive_manual_repair plain_host ''Cube'' tangled_doc = (Inr True, clean_doc)"
proof -
  have a: "repair_steps plain_host ''Cube'' tangled_doc =
             (Inr (repair_passes plain_host tangled_mesh True), tangled_doc)"
    by (rule tangled_steps)
  have b: "repairs_applied (repair_passes plain_host tangled_mesh True) \<noteq> []"
    by (simp add: tangled_passes)
  have c: "seq (set_Mesh ''Cube'' (mutable_mesh (repair_passes plain_host tangled_mesh True))) (\<lambda>u.
           seq (recompute plain_host) (\<lambda>u.
           seq (recompute plain_host) (\<lambda>u. recompute plain_host))) tangled_doc = (Inr (), clean_doc)"
    by (simp add: tangled_passes tangled_committed)
  have e: "get_Mesh ''Cube'' clean_doc = (Inr clean_mesh, clean_doc)"
    by (simp add: get_Mesh_def getObject_def clean_doc_def doc_of_def mesh_feature_def)
  have f: "isSolid plain_host clean_mesh = Inr True"
    "hasNonManifolds plain_host clean_mesh = Inr False"
    "hasSelfIntersections plain_host clean_mesh = Inr False"
    by (simp_all add: plain_host_def clean_mesh_def)
  from repair_success_iff_committed_clean [OF a b c e f]
  show ?thesis by (simp add: tangled_passes)
qed

lemma apply_repair_methods_idle:
  "\<forall>md \<in> set mds. hasattr host m (fst md) \<longrightarrow> snd (getattr host (fst md) m) = m \<Longrightarrow>
   apply_repair_methods host mds (m, a) = (m, a @ map snd (filter (step_returns host m) mds))"
proof (induction mds arbitrary: a)
  case Nil
  then show ?case by simp
next
  case (Cons md mds)
  have "apply_repair_method host md (m, a) =
          (m, if step_returns host m md then a @ [snd md] else a)"
    using Cons.prems
    by (cases md; cases "getattr host (fst md) m")
       (auto simp: apply_repair_method_def step_returns_def split: prod.splits sum.splits option.splits)
  with Cons show ?case by simp
qed

lemma repair_passes_idle:
  assumes "\<forall>md \<in> set repair_methods. hasattr host m (fst md) \<longrightarrow> snd (getattr host (fst md) m) = m"
    and "snd (fillupHoles host 100 m) = m"
  shows "repair_passes host m False =
           \<lparr>mutable_mesh = m,
            repairs_applied = map snd (filter (step_returns host m) repair_methods)
              @ (if fst (fillupHoles host 100 m) = None then [''Fill small holes''] else []),
            self_intersections_fixed_on_mutable = False, initial_has_self_intersections = False\<rparr>"
  using apply_repair_methods_idle [OF assms(1), of "[]"] assms(2)
  by (cases "fillupHoles host 100 m")
     (auto simp: repair_passes_def fill_small_holes_def split: sum.splits option.splits)

lemma committed_mesh:
  assumes "get_Mesh h d = (Inr om, d)"
    and "\<forall>x. \<not> raises host Recompute x"
  shows "\<exists>d'. seq (set_Mesh h m) (\<lambda>u.
               seq (recompute host) (\<lambda>u.
               seq (recompute host) (\<lambda>u. recompute host))) d = (Inr (), d')
             \<and> get_Mesh h d' = (Inr m, d')"
proof -
  let ?d1 = "update_object h (\<lambda>ob. ob\<lparr>Mesh := Some m\<rparr>) d"
  have s1: "set_Mesh h m d = (Inr (), ?d1)" by (rule set_Mesh_run [OF assms(1)])
  have g1: "fst (get_Mesh h ?d1) = Inr m" by (rule get_Mesh_after_set [OF assms(1)])
  obtain d2 where s2: "recompute host ?d1 = (Inr (), d2)"
    using recompute_total assms(2) by blast
  obtain d3 where s3: "recompute host d2 = (Inr (), d3)"
    using recompute_total assms(2) by blast
  obtain d4 where s4: "recompute host d3 = (Inr (), d4)"
    using recompute_total assms(2) by blast
  have "fst (get_Mesh h d4) = Inr m"
    using g1 get_Mesh_recompute [OF s2] get_Mesh_recompute [OF s3] get_Mesh_recompute [OF s4]
    by simp
  then have "get_Mesh h d4 = (Inr m, d4)"
    by (metis prod.collapse snd_get_Mesh)
  moreover have "seq (set_Mesh h m) (\<lambda>u.
               seq (recompute host) (\<lambda>u.
               seq (recompute host) (\<lambda>u. recompute host))) d = (Inr (), d4)"
    using s1 s2 s3 s4 by (simp add: seq_def)
  ultimately show ?thesis by blast
qed

text \<open>
  Claim C1, amended. Take a mesh that is solid, without non-manifolds and without
  self-intersections, whose mutable copy (line 19) holds the same mesh data, and on which
  each of the five general steps and the hole filling leaves the mesh data as it is, whether
  it returns or raises; no recompute raises. Then the pipeline skips the priority pass and
  counts as applied exactly the steps that exist and return: a step counts when its call
  returns, not when it changed something. Afterwards the object holds the same mesh data, so
  its point and facet counts are what they were. The result is \<^verbatim>\<open>True\<close> as soon as one step
  counts, and \<^verbatim>\<open>False\<close>, with the document untouched, exactly when every step is missing or
  raises.
\<close>

theorem repair_of_clean_mesh_keeps_data:
  assumes "get_Mesh mesh_obj d = (Inr om, d)"
    and "Mesh_Mesh host (Topology host om) = Inr om"
    and "isSolid host om = Inr True"
    and "hasNonManifolds host om = Inr False"
    and "hasSelfIntersections host om = Inr False"
    and "\<forall>md \<in> set repair_methods. hasattr host om (fst md) \<longrightarrow> snd (getattr host (fst md) om) = om"
    and "snd (fillupHoles host 100 om) = om"
    and "\<forall>x. \<not> raises host Recompute x"
  shows "\<exists>L d'.
           repair_steps host mesh_obj d = (Inr L, d)
         \<and> initial_has_self_intersections L = False
         \<and> repairs_applied L =
             map snd (filter (step_returns host om) repair_methods)
             @ (if fst (fillupHoles host 100 om) = None then [''Fill small holes''] else [])
         \<and> attempt_comprehensive_manual_repair host mesh_obj d = (Inr (repairs_applied L \<noteq> []), d')
         \<and> get_Mesh mesh_obj d' = (Inr om, d')
         \<and> mesh_counts host mesh_obj d' = mesh_counts host mesh_obj d
         \<and> mesh_counts host mesh_obj d = Some (CountPoints host om, CountFacets host om)
         \<and> (repairs_applied L = [] \<longrightarrow> d' = d)
         \<and> (repairs_applied L = [] \<longleftrightarrow>
              (\<forall>md \<in> set repair_methods.
                 hasattr host om (fst md) \<longrightarrow> fst (getattr host (fst md) om) \<noteq> None)
              \<and> fst (fillupHoles host 100 om) \<noteq> None)"
proof -
  define L where "L = repair_passes host om False"
  have L: "L = \<lparr>mutable_mesh = om,
            repairs_applied = map snd (filter (step_returns host om) repair_methods)
              @ (if fst (fillupHoles host 100 om) = None then [''Fill small holes''] else []),
            self_intersections_fixed_on_mutable = False, initial_has_self_intersections = False\<rparr>"
    unfolding L_def by (rule repair_passes_idle [OF assms(6,7)])
  have steps: "repair_steps host mesh_obj d = (Inr L, d)"
    unfolding L_def by (rule repair_steps_run [OF assms(1,2,3,5)])
  have applied: "repairs_applied L =
             map snd (filter (step_returns host om) repair_methods)
             @ (if fst (fillupHoles host 100 om) = None then [''Fill small holes''] else [])"
    by (simp add: L)
  have none: "repairs_applied L = [] \<longleftrightarrow>
              (\<forall>md \<in> set repair_methods.
                 hasattr host om (fst md) \<longrightarrow> fst (getattr host (fst md) om) \<noteq> None)
              \<and> fst (fillupHoles host 100 om) \<noteq> None"
    unfolding applied by (auto simp: filter_empty_conv step_returns_def)
  have cnt: "mesh_counts host mesh_obj d = Some (CountPoints host om, CountFacets host om)"
    using assms(1) by (simp add: mesh_counts_def)
  have "\<exists>d'. attempt_comprehensive_manual_repair host mesh_obj d = (Inr (repairs_applied L \<noteq> []), d')
         \<and> get_Mesh mesh_obj d' = (Inr om, d') \<and> (repairs_applied L = [] \<longrightarrow> d' = d)"
  proof (cases "repairs_applied L = []")
    case True
    from attempt_no_repairs [OF steps True] assms(1) True show ?thesis by simp
  next
    case False
    from committed_mesh [OF assms(1,8), of "mutable_mesh L"] obtain d' where
      c: "seq (set_Mesh mesh_obj (mutable_mesh L)) (\<lambda>u.
           seq (recompute host) (\<lambda>u.
           seq (recompute host) (\<lambda>u. recompute host))) d = (Inr (), d')"
      and g: "get_Mesh mesh_obj d' = (Inr (mutable_mesh L), d')"
      by blast
    have m: "mutable_mesh L = om" by (simp add: L)
    have "attempt_comprehensive_manual_repair host mesh_obj d = (Inr True, d')"
      using repair_commit_result [OF steps False c g [unfolded m] assms(3,4,5)]
      by (simp add: L)
    with g m False show ?thesis by auto
  qed
  then obtain d' where
    r: "attempt_comprehensive_manual_repair host mesh_obj d = (Inr (repairs_applied L \<noteq> []), d')"
       "get_Mesh mesh_obj d' = (Inr om, d')" "repairs_applied L = [] \<longrightarrow> d' = d"
    by blast
  have cnt': "mesh_counts host mesh_obj d' = mesh_counts host mesh_obj d"
    using r(2) assms(1) by (simp add: mesh_counts_def)
  have ini: "initial_has_self_intersections L = False" by (simp add: L)
  from steps ini applied r cnt cnt' none show ?thesis by blast
qed

text \<open>
  The clean cube on a kernel whose steps return: \<^verbatim>\<open>True\<close>, 8 points and 12 facets as before.
  The same cube on a kernel whose steps all raise: \<^verbatim>\<open>False\<close>, and the document is untouched.
\<close>

theorem repair_of_clean_mesh_keeps_data_witness:
  "fst (attempt_comprehensive_manual_repair plain_host ''Cube'' clean_doc) = Inr True
   \<and> mesh_counts plain_host ''Cube''
        (snd (attempt_comprehensive_manual_repair plain_host ''Cube'' clean_doc)) = Some (8, 12)
   \<and> attempt_comprehensive_manual_repair failing_host ''Cube'' clean_doc = (Inr False, clean_doc)"
proof -
  have a: "get_Mesh ''Cube'' clean_doc = (Inr clean_mesh, clean_doc)"
    by (simp add: get_Mesh_def getObject_def clean_doc_def doc_of_def mesh_feature_def)
  have b: "Mesh_Mesh plain_host (Topology plain_host clean_mesh) = Inr clean_mesh"
    by (simp add: plain_host_def)
  have c: "isSolid plain_host clean_mesh = Inr True"
    "hasNonManifolds plain_host clean_mesh = Inr False"
    "hasSelfIntersections plain_host clean_mesh = Inr False"
    by (simp_all add: plain_host_def clean_mesh_def)
  have e: "\<forall>md \<in> set repair_methods. hasattr plain_host clean_mesh (fst md) \<longrightarrow>
             snd (getattr plain_host (fst md) clean_mesh) = clean_mesh"
    by (simp add: plain_host_def clean_mesh_def repair_methods_def)
  have f: "snd (fillupHoles plain_host 100 clean_mesh) = clean_mesh"
    by (simp add: plain_host_def)
  have g: "\<forall>x. \<not> raises plain_host Recompute x" by simp
  have h: "fst (fillupHoles plain_host 100 clean_mesh) = None"
    by (simp add: plain_host_def)
  have k: "CountPoints plain_host clean_mesh = 8" "CountFacets plain_host clean_mesh = 12"
    by (simp_all add: plain_host_def clean_mesh_def)
  from repair_of_clean_mesh_keeps_data [OF a b c e f g] obtain L :: "plain_mesh repair_locals" and d' where
    p: "repairs_applied L =
             map snd (filter (step_returns plain_host clean_mesh) repair_methods)
             @ (if fst (fillupHoles plain_host 100 clean_mesh) = None then [''Fill small holes''] else [])"
       "attempt_comprehensive_manual_repair plain_host ''Cube'' clean_doc = (Inr (repairs_applied L \<noteq> []), d')"
       "mesh_counts plain_host ''Cube'' d' = mesh_counts plain_host ''Cube'' clean_doc"
       "mesh_counts plain_host ''Cube'' clean_doc =
          Some (CountPoints plain_host clean_mesh, CountFacets plain_host clean_mesh)"
    by blast
  have p1: "fst (attempt_comprehensive_manual_repair plain_host ''Cube'' clean_doc) = Inr True
   \<and> mesh_counts plain_host ''Cube''
        (snd (attempt_comprehensive_manual_repair plain_host ''Cube'' clean_doc)) = Some (8, 12)"
    using p h k by simp
  have b': "Mesh_Mesh failing_host (Topology failing_host clean_mesh) = Inr clean_mesh"
    by (simp add: failing_host_def plain_host_def)
  have c': "isSolid failing_host clean_mesh = Inr True"
    "hasNonManifolds failing_host clean_mesh = Inr False"
    "hasSelfIntersections failing_host clean_mesh = Inr False"
    by (simp_all add: failing_host_def plain_host_def clean_mesh_def)
  have e': "\<forall>md \<in> set repair_methods. hasattr failing_host clean_mesh (fst md) \<longrightarrow>
             snd (getattr failing_host (fst md) clean_mesh) = clean_mesh"
    by (simp add: failing_host_def)
  have f': "snd (fillupHoles failing_host 100 clean_mesh) = clean_mesh"
    by (simp add: failing_host_def)
  have g': "\<forall>x. \<not> raises failing_host Recompute x"
    by (simp add: failing_host_def plain_host_def)
  have h': "(\<forall>md \<in> set repair_methods.
                 hasattr failing_host clean_mesh (fst md) \<longrightarrow>
                 fst (getattr failing_host (fst md) clean_mesh) \<noteq> None)
              \<and> fst (fillupHoles failing_host 100 clean_mesh) \<noteq> None"
    by (simp add: failing_host_def)
  from repair_of_clean_mesh_keeps_data [OF a b' c' e' f' g'] obtain L' :: "plain_mesh repair_locals" and d'' where
    q: "attempt_comprehensive_manual_repair failing_host ''Cube'' clean_doc = (Inr (repairs_applied L' \<noteq> []), d'')"
       "repairs_applied L' = [] \<longrightarrow> d'' = clean_doc"
       "repairs_applied L' = [] \<longleftrightarrow>
              (\<forall>md \<in> set repair_methods.
                 hasattr failing_host clean_mesh (fst md) \<longrightarrow>
                 fst (getattr failing_host (fst md) clean_mesh) \<noteq> None)
              \<and> fst (fillupHoles failing_host 100 clean_mesh) \<noteq> None"
    by blast
  have p2: "attempt_comprehensive_manual_repair failing_host ''Cube'' clean_doc = (Inr False, clean_doc)"
    using q h' by simp
  from p1 p2 show ?thesis by simp
qed

text \<open>
  Claim C1 as stated asks for \<^verbatim>\<open>False\<close> on a clean mesh. The cube is solid, without
  non-manifolds and self-intersections; every step returns and changes nothing; the
  pipeline returns \<^verbatim>\<open>True\<close>.
\<close>

theorem clean_mesh_repair_counterexample:
  "isSolid plain_host clean_mesh = Inr True
   \<and> hasNonManifolds plain_host clean_mesh = Inr False
   \<and> hasSelfIntersections plain_host clean_mesh = Inr False
   \<and> get_Mesh ''Cube'' clean_doc = (Inr clean_mesh, clean_doc)
   \<and> attempt_comprehensive_manual_repair plain_host ''Cube'' clean_doc = (Inr True, clean_doc)"
  by (simp add: attempt_comprehensive_manual_repair_def repair_steps_def repair_commit_def
      repair_passes_def repair_methods_def apply_repair_method_def fill_small_holes_def
      prog_defs get_Mesh_def get_Name_def set_Mesh_def set_attr_def update_object_def
      getObject_def recompute_def recompute_object_def
      clean_doc_def doc_of_def mesh_feature_def plain_host_def clean_mesh_def)

subsection \<open>What a computation keeps\<close>

lemma keepsD: "keeps p m \<Longrightarrow> m d = (r, d') \<Longrightarrow> p d' = p d"
  by (auto simp: keeps_def)

lemma keeps_succeed [intro!, simp]: "keeps p (succeed a)"
  by (simp add: keeps_def succeed_def)

lemma keeps_raise_exn [intro!, simp]: "keeps p (raise_exn e)"
  by (simp add: keeps_def raise_exn_def)

lemma keeps_of_result [intro!, simp]: "keeps p (of_result r)"
  by (simp add: keeps_def of_result_def)

lemma keeps_seq [intro!]:
  assumes "keeps p m" and "\<And>a. keeps p (f a)"
  shows "keeps p (seq m f)"
  unfolding keeps_def
proof (intro allI impI)
  fix d r d'
  assume run: "seq m f d = (r, d')"
  obtain r1 d1 where m: "m d = (r1, d1)" by (cases "m d")
  show "p d' = p d"
  proof (cases r1)
    case (Inl e)
    with run m have "d' = d1" by (simp add: seq_def)
    with keepsD [OF assms(1) m] show ?thesis by simp
  next
    case (Inr a)
    with run m have "f a d1 = (r, d')" by (simp add: seq_def)
    with keepsD [OF assms(2)] keepsD [OF assms(1) m] show ?thesis by metis
  qed
qed

lemma keeps_try_except [intro!]:
  assumes "keeps p m" and "\<And>e. keeps p (h e)"
  shows "keeps p (try_except m h)"
  unfolding keeps_def
proof (intro allI impI)
  fix d r d'
  assume run: "try_except m h d = (r, d')"
  obtain r1 d1 where m: "m d = (r1, d1)" by (cases "m d")
  show "p d' = p d"
  proof (cases r1)
    case (Inr a)
    with run m have "d' = d1" by (simp add: try_except_def)
    with keepsD [OF assms(1) m] show ?thesis by simp
  next
    case (Inl e)
    with run m have "h e d1 = (r, d')" by (simp add: try_except_def)
    with keepsD [OF assms(2)] keepsD [OF assms(1) m] show ?thesis by metis
  qed
qed

lemma keeps_with_locals [intro!]:
  assumes "keeps p m"
  shows "keeps p (with_locals l m)"
  unfolding keeps_def
proof (intro allI impI)
  fix d r d'
  assume run: "with_locals l m d = (r, d')"
  obtain r1 d1 where m: "m d = (r1, d1)" by (cases "m d")
  with run have "d' = d1" by (cases r1) (simp_all add: with_locals_def)
  with keepsD [OF assms m] show "p d' = p d" by simp
qed

lemma keeps_if [intro!]: "(c \<Longrightarrow> keeps p m) \<Longrightarrow> (\<not> c \<Longrightarrow> keeps p n) \<Longrightarrow> keeps p (if c then m else n)"
  by simp

lemma keeps_get_Name [intro!, simp]: "keeps p (get_Name h)"
  by (auto simp: keeps_def get_Name_def split: option.splits)

lemma keeps_get_Mesh [intro!, simp]: "keeps p (get_Mesh h)"
  by (auto simp: keeps_def get_Mesh_def split: option.splits)

lemma keeps_get_Shape [intro!, simp]: "keeps p (get_Shape h)"
  by (auto simp: keeps_def get_Shape_def split: option.splits)

lemma getObject_None_iff: "getObject d n = None \<longleftrightarrow> n \<notin> set (names d)"
  by (auto simp: getObject_def names_def find_None_iff)

lemma keeps_names_set_attr:
  "(\<And>ob. Name (f ob) = Name ob) \<Longrightarrow> keeps names (set_attr h f)"
  by (auto simp: keeps_def set_attr_def update_object_def names_def split: option.splits)

lemma keeps_names_set_Mesh [intro!, simp]: "keeps names (set_Mesh h m)"
  by (simp add: set_Mesh_def keeps_names_set_attr)

lemma keeps_names_recompute [intro!, simp]: "keeps names (recompute host)"
  by (auto simp: keeps_def recompute_def names_def split: if_splits)

lemma keeps_names_repair_steps [intro!, simp]: "keeps p (repair_steps host h)"
  unfolding repair_steps_def by (intro keeps_seq keeps_get_Mesh keeps_get_Name keeps_of_result keeps_succeed)

lemma keeps_names_repair_commit [intro!, simp]: "keeps names (repair_commit host h L)"
  unfolding repair_commit_def by (intro keeps_if keeps_seq) simp_all

lemma keeps_names_attempt [intro!, simp]:
  "keeps names (attempt_comprehensive_manual_repair host h)"
  unfolding attempt_comprehensive_manual_repair_def
  by (intro keeps_try_except keeps_seq) simp_all

lemma getObject_exists:
  "h \<in> set (names d) \<Longrightarrow> \<exists>ob. getObject d h = Some ob \<and> Name ob = h"
  using getObject_None_iff [of d h] getObject_Some_Name [of d h] by (cases "getObject d h") auto

lemma getObject_Some_names: "getObject d h = Some ob \<Longrightarrow> h \<in> set (names d)"
  using getObject_None_iff [of d h] by auto

lemma get_Name_exists: "h \<in> set (names d) \<Longrightarrow> get_Name h d = (Inr h, d)"
  using getObject_exists [of h d] by (auto simp: get_Name_def)

lemma attempt_total:
  assumes "h \<in> set (names d)"
  shows "\<exists>b d'. attempt_comprehensive_manual_repair host h d = (Inr b, d') \<and> names d' = names d"
proof -
  let ?body = "seq (repair_steps host h) (repair_commit host h)"
  obtain r d1 where b: "?body d = (r, d1)" by (cases "?body d")
  have "keeps names ?body" by (intro keeps_seq) simp_all
  from keepsD [OF this b] have n: "names d1 = names d" .
  show ?thesis
  proof (cases r)
    case (Inr b')
    with b n show ?thesis
      by (simp add: attempt_comprehensive_manual_repair_def try_except_def)
  next
    case (Inl e)
    have "get_Name h d1 = (Inr h, d1)" using assms n by (simp add: get_Name_exists)
    with Inl b have "attempt_comprehensive_manual_repair host h d = (Inr False, d1)"
      by (simp add: attempt_comprehensive_manual_repair_def try_except_def seq_def succeed_def)
    with n show ?thesis by blast
  qed
qed

lemma attempt_mesh_repair_result:
  assumes "h \<in> set (names d)"
  shows "\<exists>b d'. attempt_comprehensive_manual_repair host h d = (Inr b, d') \<and>
                 attempt_mesh_repair host h nm si d = (Inr b, d') \<and> names d' = names d"
proof -
  from attempt_total [OF assms] obtain b d' where
    a: "attempt_comprehensive_manual_repair host h d = (Inr b, d')" "names d' = names d"
    by blast
  have "attempt_mesh_repair host h nm si d = (Inr b, d')"
    using a get_Name_exists [OF assms]
    by (simp add: attempt_mesh_repair_def try_except_def seq_def succeed_def)
  with a show ?thesis by blast
qed

lemma get_Mesh_exists: "get_Mesh h d = (Inr m, d') \<Longrightarrow> h \<in> set (names d)"
  by (auto simp: get_Mesh_def split: option.splits dest: getObject_Some_names)

subsection \<open>Claims about the evaluator\<close>

text \<open>
  Claim C3, amended. The evaluator classifies by the three answers of the backend: solid
  with no non-manifolds and no self-intersections gives \<^verbatim>\<open>'proceed'\<close>; solid with one of the
  two gives what the repair gives, \<^verbatim>\<open>'proceed'\<close> on success and \<^verbatim>\<open>'repair'\<close> on failure; not
  solid gives \<^verbatim>\<open>'repair'\<close> whatever the other two say; a query that raises (one of the three,
  or the volume or area of a solid mesh, read for the log) gives \<^verbatim>\<open>'cancel'\<close>. The number of
  facets is logged and not looked at: a mesh with no facets is classified by what
  \<^verbatim>\<open>isSolid()\<close> answers for it.
\<close>

theorem evaluate_classification:
  assumes "get_Mesh selected_mesh d = (Inr mesh, d)"
  shows "(isSolid host mesh = Inr True \<and> hasNonManifolds host mesh = Inr False \<and>
          hasSelfIntersections host mesh = Inr False \<and>
          \<not> isl (Volume host mesh) \<and> \<not> isl (Area host mesh)
            \<longrightarrow> evaluate_mesh_automated host selected_mesh d = (Inr ''proceed'', d))
       \<and> (isSolid host mesh = Inr True \<and> hasNonManifolds host mesh = Inr has_non_manifolds \<and>
          hasSelfIntersections host mesh = Inr has_self_intersections \<and>
          (has_non_manifolds \<or> has_self_intersections) \<and>
          \<not> isl (Volume host mesh) \<and> \<not> isl (Area host mesh)
            \<longrightarrow> (\<exists>repair_success d'.
                   attempt_comprehensive_manual_repair host selected_mesh d = (Inr repair_success, d') \<and>
                   evaluate_mesh_automated host selected_mesh d =
                     (Inr (if repair_success then ''proceed'' else ''repair''), d')))
       \<and> (isSolid host mesh = Inr False \<and> \<not> isl (hasNonManifolds host mesh) \<and>
          \<not> isl (hasSelfIntersections host mesh)
            \<longrightarrow> evaluate_mesh_automated host selected_mesh d = (Inr ''repair'', d))
       \<and> (isl (isSolid host mesh) \<or> isl (hasNonManifolds host mesh) \<or>
          isl (hasSelfIntersections host mesh) \<or>
          isSolid host mesh = Inr True \<and> (isl (Volume host mesh) \<or> isl (Area host mesh))
            \<longrightarrow> evaluate_mesh_automated host selected_mesh d = (Inr ''cancel'', d))"
proof -
  have ex: "selected_mesh \<in> set (names d)" by (rule get_Mesh_exists [OF assms])
  have nm: "get_Name selected_mesh d = (Inr selected_mesh, d)" by (rule get_Name_exists [OF ex])
  have c1: "evaluate_mesh_automated host selected_mesh d = (Inr ''proceed'', d)"
    if "isSolid host mesh = Inr True" "hasNonManifolds host mesh = Inr False"
       "hasSelfIntersections host mesh = Inr False"
       "\<not> isl (Volume host mesh)" "\<not> isl (Area host mesh)"
    using that assms nm
    by (cases "Volume host mesh"; cases "Area host mesh")
       (simp_all add: evaluate_mesh_automated_def prog_defs)
  have c2: "\<exists>repair_success d'.
                   attempt_comprehensive_manual_repair host selected_mesh d = (Inr repair_success, d') \<and>
                   evaluate_mesh_automated host selected_mesh d =
                     (Inr (if repair_success then ''proceed'' else ''repair''), d')"
    if q: "isSolid host mesh = Inr True" "hasNonManifolds host mesh = Inr has_non_manifolds"
       "hasSelfIntersections host mesh = Inr has_self_intersections"
       "has_non_manifolds \<or> has_self_intersections"
       "\<not> isl (Volume host mesh)" "\<not> isl (Area host mesh)"
  proof -
    from attempt_mesh_repair_result [OF ex, of host has_non_manifolds has_self_intersections]
    obtain b d' where
      a: "attempt_comprehensive_manual_repair host selected_mesh d = (Inr b, d')"
         "attempt_mesh_repair host selected_mesh has_non_manifolds has_self_intersections d = (Inr b, d')"
      by blast
    have "evaluate_mesh_automated host selected_mesh d =
            (Inr (if b then ''proceed'' else ''repair''), d')"
      using q assms nm a(2)
      by (cases "Volume host mesh"; cases "Area host mesh")
         (auto simp add: evaluate_mesh_automated_def prog_defs)
    with a(1) show ?thesis by blast
  qed
  have c3: "evaluate_mesh_automated host selected_mesh d = (Inr ''repair'', d)"
    if "isSolid host mesh = Inr False" "\<not> isl (hasNonManifolds host mesh)"
       "\<not> isl (hasSelfIntersections host mesh)"
    using that assms nm
    by (cases "hasNonManifolds host mesh"; cases "hasSelfIntersections host mesh")
       (simp_all add: evaluate_mesh_automated_def prog_defs)
  have c4: "evaluate_mesh_automated host selected_mesh d = (Inr ''cancel'', d)"
    if "isl (isSolid host mesh) \<or> isl (hasNonManifolds host mesh) \<or>
          isl (hasSelfIntersections host mesh) \<or>
          isSolid host mesh = Inr True \<and> (isl (Volume host mesh) \<or> isl (Area host mesh))"
    using that assms nm
    by (cases "isSolid host mesh"; cases "hasNonManifolds host mesh";
        cases "hasSelfIntersections host mesh"; cases "Volume host mesh"; cases "Area host mesh")
       (simp_all add: evaluate_mesh_automated_def prog_defs)
  from c1 c2 c3 c4 show ?thesis by blast
qed

lemma plain_host_queries [simp]:
  "isSolid plain_host m = Inr (pm_solid m)"
  "hasNonManifolds plain_host m = Inr (pm_non_manifold m)"
  "hasSelfIntersections plain_host m = Inr (pm_self_intersecting m)"
  "Volume plain_host m = Inr 1"
  "Area plain_host m = Inr 6"
  "CountPoints plain_host m = pm_points m"
  "CountFacets plain_host m = pm_facets m"
  "Topology plain_host m = m"
  "Mesh_Mesh plain_host m = Inr m"
  by (simp_all add: plain_host_def)

lemma deaf_host_queries [simp]:
  "isSolid deaf_host m = Inr (pm_solid m)"
  "hasNonManifolds deaf_host m = Inl HostError"
  by (simp_all add: deaf_host_def plain_host_def)

lemma get_Mesh_single [simp]:
  "get_Mesh n (doc_of [mesh_feature n m]) = (Inr m, doc_of [mesh_feature n m])"
  by (simp add: get_Mesh_def getObject_def doc_of_def mesh_feature_def)

lemma tangled_attempt:
  "attempt_comprehensive_manual_repair plain_host ''Cube'' tangled_doc = (Inr True, clean_doc)"
proof -
  have b: "repairs_applied (repair_passes plain_host tangled_mesh True) \<noteq> []"
    by (simp add: tangled_passes)
  have c: "seq (set_Mesh ''Cube'' (mutable_mesh (repair_passes plain_host tangled_mesh True))) (\<lambda>u.
           seq (recompute plain_host) (\<lambda>u.
           seq (recompute plain_host) (\<lambda>u. recompute plain_host))) tangled_doc = (Inr (), clean_doc)"
    by (simp add: tangled_passes tangled_committed)
  have e: "get_Mesh ''Cube'' clean_doc = (Inr clean_mesh, clean_doc)"
    by (simp add: clean_doc_def)
  have f: "isSolid plain_host clean_mesh = Inr True"
    "hasNonManifolds plain_host clean_mesh = Inr False"
    "hasSelfIntersections plain_host clean_mesh = Inr False"
    by (simp_all add: plain_host_def clean_mesh_def)
  from repair_commit_result [OF tangled_steps b c e f]
  show ?thesis by (simp add: tangled_passes)
qed

text \<open>One mesh for each row of the table: clean, repaired, not solid, and a query that raises.\<close>

theorem evaluate_classification_witness:
  "evaluate_mesh_automated plain_host ''Cube'' clean_doc = (Inr ''proceed'', clean_doc)
   \<and> evaluate_mesh_automated plain_host ''Cube'' tangled_doc = (Inr ''proceed'', clean_doc)
   \<and> evaluate_mesh_automated plain_host ''Cube'' open_doc = (Inr ''repair'', open_doc)
   \<and> evaluate_mesh_automated deaf_host ''Cube'' clean_doc = (Inr ''cancel'', clean_doc)"
proof -
  have g1: "get_Mesh ''Cube'' clean_doc = (Inr clean_mesh, clean_doc)"
    by (simp add: clean_doc_def)
  have g2: "get_Mesh ''Cube'' tangled_doc = (Inr tangled_mesh, tangled_doc)"
    by (simp add: tangled_doc_def)
  have g3: "get_Mesh ''Cube'' open_doc = (Inr open_mesh, open_doc)"
    by (simp add: open_doc_def)
  have p1: "evaluate_mesh_automated plain_host ''Cube'' clean_doc = (Inr ''proceed'', clean_doc)"
    using evaluate_classification [OF g1, of plain_host]
    by (simp add: clean_mesh_def)
  have p2: "evaluate_mesh_automated plain_host ''Cube'' tangled_doc = (Inr ''proceed'', clean_doc)"
    using evaluate_classification [OF g2, of plain_host False True] tangled_attempt
    by (auto simp add: tangled_mesh_def)
  have p3: "evaluate_mesh_automated plain_host ''Cube'' open_doc = (Inr ''repair'', open_doc)"
    using evaluate_classification [OF g3, of plain_host]
    by (simp add: open_mesh_def)
  have p4: "evaluate_mesh_automated deaf_host ''Cube'' clean_doc = (Inr ''cancel'', clean_doc)"
    using evaluate_classification [OF g1, of deaf_host]
    by (simp add: clean_mesh_def)
  from p1 p2 p3 p4 show ?thesis by simp
qed

text \<open>
  Claim C3 as stated has a mesh with no facets classified as not solid. With a backend that
  answers \<^verbatim>\<open>isSolid()\<close> with \<^verbatim>\<open>True\<close> for it, the evaluator returns \<^verbatim>\<open>'proceed'\<close>.
\<close>

theorem empty_mesh_counterexample:
  "CountFacets plain_host empty_mesh = 0
   \<and> get_Mesh ''Empty'' empty_doc = (Inr empty_mesh, empty_doc)
   \<and> evaluate_mesh_automated plain_host ''Empty'' empty_doc = (Inr ''proceed'', empty_doc)"
  by (simp add: evaluate_mesh_automated_def prog_defs get_Mesh_def get_Name_def getObject_def
      empty_doc_def doc_of_def mesh_feature_def empty_mesh_def)

subsection \<open>A conversion that does not own the transaction keeps it\<close>

lemma keeps_case_prod [intro!]:
  "(\<And>a b. keeps p (f a b)) \<Longrightarrow> keeps p (case x of (a, b) \<Rightarrow> f a b)"
  by (cases x) simp

lemma keeps_case_option [intro!]:
  "keeps p m \<Longrightarrow> (\<And>a. keeps p (f a)) \<Longrightarrow> keeps p (case x of None \<Rightarrow> m | Some a \<Rightarrow> f a)"
  by (cases x) simp_all

lemma keeps_txn_set_attr [intro!, simp]: "keeps txn (set_attr h f)"
  by (auto simp: keeps_def set_attr_def update_object_def txn_def split: option.splits)

lemma keeps_txn_setters [intro!, simp]:
  "keeps txn (set_Mesh h m)" "keeps txn (set_Shape h s)" "keeps txn (set_Source h src)"
  "keeps txn (set_BaseFeature h b)" "keeps txn (set_Visibility h v)"
  by (simp_all add: set_Mesh_def set_Shape_def set_Source_def set_BaseFeature_def set_Visibility_def)

lemma keeps_txn_addObject [intro!, simp]: "keeps txn (addObject host ty n)"
  by (auto simp: keeps_def addObject_def txn_def Let_def split: if_splits)

lemma keeps_txn_removeObject [intro!, simp]: "keeps txn (removeObject host n)"
  by (auto simp: keeps_def removeObject_def txn_def split: if_splits)

lemma keeps_txn_recompute [intro!, simp]: "keeps txn (recompute host)"
  by (auto simp: keeps_def recompute_def txn_def split: if_splits)

lemma keeps_txn_repair_commit [intro!, simp]: "keeps txn (repair_commit host h L)"
  unfolding repair_commit_def by (intro keeps_if keeps_seq) simp_all

lemma keeps_txn_attempt [intro!, simp]:
  "keeps txn (attempt_comprehensive_manual_repair host h)"
  unfolding attempt_comprehensive_manual_repair_def
  by (intro keeps_try_except keeps_seq) simp_all

lemma keeps_txn_attempt_mesh_repair [intro!, simp]:
  "keeps txn (attempt_mesh_repair host h nm si)"
  unfolding attempt_mesh_repair_def
  by (intro keeps_try_except keeps_seq keeps_if) simp_all

lemma keeps_txn_evaluate [intro!, simp]: "keeps txn (evaluate_mesh_automated host h)"
  unfolding evaluate_mesh_automated_def
  by (intro keeps_try_except keeps_seq keeps_if) simp_all

lemma keeps_txn_convert_build [intro!, simp]: "keeps txn (convert_build host h base)"
  unfolding convert_build_def mesh_to_shape_def shape_to_solid_def refine_solid_def
  by (intro keeps_seq keeps_if) simp_all

lemma keeps_txn_convert_finish [intro!, simp]:
  "keeps txn (convert_finish host h True base shape_obj solid_obj refined_obj)"
  unfolding convert_finish_def wrap_body_def remove_intermediates_def
  by (intro keeps_seq keeps_if) simp_all

lemma keeps_txn_convert_steps [intro!, simp]:
  "keeps txn (convert_steps host h True base)"
  unfolding convert_steps_def
  by (intro keeps_seq keeps_if keeps_case_prod) simp_all

lemma keeps_txn_convert_try [intro!, simp]: "keeps txn (convert_try host h True)"
  unfolding convert_try_def
  by (intro keeps_seq keeps_if keeps_with_locals) simp_all

lemma keeps_txn_remove_temp_objects [intro!, simp]:
  "keeps txn (remove_temp_objects host ns)"
proof (induction ns)
  case Nil
  then show ?case by simp
next
  case (Cons n ns)
  show ?case
    unfolding keeps_def
  proof (intro allI impI)
    fix d r d'
    assume "remove_temp_objects host (n # ns) d = (r, d')"
    then have run: "remove_temp_objects host ns (snd (removeObject host n d)) = (r, d')" by simp
    have "txn (snd (removeObject host n d)) = txn d"
      using keepsD [OF keeps_txn_removeObject, of host n d] by (cases "removeObject host n d") simp
    with keepsD [OF Cons run] show "txn d' = txn d" by simp
  qed
qed

lemma keeps_txn_convert_except [intro!, simp]: "keeps txn (convert_except host h True el)"
proof (cases "snd el")
  case None
  then show ?thesis by (simp add: convert_except_def)
next
  case (Some base)
  have "keeps txn (seq (remove_temp_objects host ns) (\<lambda>u.
          seq (if \<not> True then abortTransaction host else succeed ()) (\<lambda>u.
          seq (get_Name h) (\<lambda>n. succeed (False, None)))))" for ns
    by (intro keeps_seq keeps_if) simp_all
  then show ?thesis
    using Some by (auto simp: convert_except_def keeps_def Let_def)
qed

lemma keeps_txn_convert_single_mesh [intro!, simp]: "keeps txn (convert_single_mesh host h True)"
  unfolding convert_single_mesh_def enter_transaction_def
  by (intro keeps_seq keeps_if keeps_try_except) simp_all

lemma keeps_txn_process_mesh [intro!, simp]: "keeps txn (process_mesh host h results)"
proof -
  have tail: "keeps txn (\<lambda>d. if c d then (Inr a, d) else (Inr b, d))" for c and a b :: run_summary
    by (simp add: keeps_def)
  show ?thesis
    unfolding process_mesh_def
    by (intro keeps_seq keeps_if keeps_case_prod tail) simp_all
qed

lemma keeps_txn_process_meshes [intro!, simp]: "keeps txn (process_meshes host hs results)"
proof (induction hs arbitrary: results)
  case Nil
  then show ?case by simp
next
  case (Cons h hs)
  show ?case
    unfolding keeps_def
  proof (intro allI impI)
    fix d r d'
    assume run: "process_meshes host (h # hs) results d = (r, d')"
    obtain r1 d1 where one: "process_mesh host h results d = (r1, d1)"
      by (cases "process_mesh host h results d")
    have t1: "txn d1 = txn d" by (rule keepsD [OF keeps_txn_process_mesh one])
    show "txn d' = txn d"
    proof (cases r1)
      case (Inl e)
      with run one t1 show ?thesis by simp
    next
      case (Inr results')
      with run one have "process_meshes host hs results' d1 = (r, d')" by simp
      from keepsD [OF Cons this] t1 show ?thesis by simp
    qed
  qed
qed

subsection \<open>Claims about the batch\<close>


text \<open>
  Claim C8. When the body of the \<^verbatim>\<open>try\<close> of the batch raises, in the loop or at the commit,
  the master transaction is still open and nothing was committed; the handler aborts it,
  which puts the objects back as they were when the batch started, and the function returns
  \<^verbatim>\<open>None\<close>. The commit is logged only after the loop has gone through every mesh.
\<close>

theorem batch_all_or_nothing:
  assumes "fst (find_all_mesh_objects (Some d)) = found"
    and "found \<noteq> []"
    and "openTransaction host ''Convert All Document Meshes'' d = (Inr (), opened)"
  shows "(case batch_try host found opened of
            (Inl e, d2) \<Rightarrow>
              transaction d2 = Some (''Convert All Document Meshes'', Objects d)
              \<and> history d2 = history opened
              \<and> convert_all_document_meshes host show_summary (Some d) =
                  (if raises host AbortTransaction d2 then (Inl HostError, Some d2)
                   else (Inr None,
                         Some (d2\<lparr>Objects := Objects d, transaction := None,
                                  history := history opened
                                    @ [Aborted ''Convert All Document Meshes'']\<rparr>)))
          | (Inr results, d2) \<Rightarrow>
              (\<exists>d1. process_meshes host found (initial_results (length found)) opened
                       = (Inr results, d1)
                    \<and> \<not> raises host CommitTransaction d1
                    \<and> d2 = d1\<lparr>transaction := None,
                              history := history opened
                                @ [Committed ''Convert All Document Meshes'']\<rparr>))"
proof -
  let ?n = "''Convert All Document Meshes''"
  have op: "transaction opened = Some (?n, Objects d)"
    using assms(3) by (auto simp: openTransaction_def split: if_splits)
  obtain r1 d1 where loop: "process_meshes host found (initial_results (length found)) opened = (r1, d1)"
    by (cases "process_meshes host found (initial_results (length found)) opened")
  have t1: "txn d1 = txn opened" by (rule keepsD [OF keeps_txn_process_meshes loop])
  then have tr1: "transaction d1 = Some (?n, Objects d)" and h1: "history d1 = history opened"
    using op by (simp_all add: txn_def)
  obtain summary where fnd: "find_all_mesh_objects (Some d) = (found, summary)"
    using assms(1) by (cases "find_all_mesh_objects (Some d)") auto
  have whole: "convert_all_document_meshes host show_summary (Some d) =
      (case batch_try host found opened of
         (Inl e, d2) \<Rightarrow>
           (case abortTransaction host d2 of
              (Inl e', d3) \<Rightarrow> (Inl e', Some d3)
            | (Inr u1, d3) \<Rightarrow> (Inr None, Some d3))
       | (Inr results, d2) \<Rightarrow>
           (case recompute host d2 of
              (Inl e, d3) \<Rightarrow> (Inl e, Some d3)
            | (Inr u2, d3) \<Rightarrow> (Inr (Some results), Some d3)))"
    using assms(2,3) by (simp add: convert_all_document_meshes_def fnd)
  show ?thesis
  proof (cases r1)
    case (Inl e)
    then have b: "batch_try host found opened = (Inl e, d1)"
      using loop by (simp add: batch_try_def seq_def)
    show ?thesis
      using whole tr1 h1 by (simp add: b abortTransaction_def)
  next
    case (Inr results)
    show ?thesis
    proof (cases "raises host CommitTransaction d1")
      case True
      then have b: "batch_try host found opened = (Inl HostError, d1)"
        using loop Inr by (simp add: batch_try_def seq_def commitTransaction_def)
      show ?thesis
        using whole tr1 h1 by (simp add: b abortTransaction_def)
    next
      case False
      then have b: "batch_try host found opened =
          (Inr results, d1\<lparr>transaction := None, history := history opened @ [Committed ?n]\<rparr>)"
        using loop Inr tr1 h1 by (simp add: batch_try_def seq_def commitTransaction_def succeed_def)
      show ?thesis
        using loop Inr False by (simp add: b)
    qed
  qed
qed

text \<open>
  Claim C10. The batch returns \<^verbatim>\<open>None\<close> in two cases and no other: there is no active
  document, or the body of the \<^verbatim>\<open>try\<close> raised and the master transaction was aborted. A
  document without mesh objects gives the dict of four zero counts.
\<close>

theorem batch_returns_None_iff:
  "(fst (convert_all_document_meshes host show_summary doc) = Inr None \<longleftrightarrow>
      doc = None \<or>
      (\<exists>d opened e d2 d3. doc = Some d \<and> fst (find_all_mesh_objects (Some d)) \<noteq> [] \<and>
         openTransaction host ''Convert All Document Meshes'' d = (Inr (), opened) \<and>
         batch_try host (fst (find_all_mesh_objects (Some d))) opened = (Inl e, d2) \<and>
         abortTransaction host d2 = (Inr (), d3)))
   \<and> (\<forall>d. (\<forall>ob \<in> set (Objects d). Mesh ob = None) \<longrightarrow>
          convert_all_document_meshes host show_summary (Some d) =
            (Inr (Some \<lparr>total_meshes = 0, converted = 0, failed = 0, skipped = 0,
                         converted_objects = None, failed_objects = None,
                         skipped_objects = None\<rparr>), Some d))"
proof (intro conjI allI impI)
  fix d :: "('a, 'b) document"
  assume "\<forall>ob \<in> set (Objects d). Mesh ob = None"
  then have "filter (\<lambda>ob. Mesh ob \<noteq> None) (Objects d) = []"
    by (simp add: filter_empty_conv)
  then show "convert_all_document_meshes host show_summary (Some d) =
            (Inr (Some \<lparr>total_meshes = 0, converted = 0, failed = 0, skipped = 0,
                         converted_objects = None, failed_objects = None,
                         skipped_objects = None\<rparr>), Some d)"
    by (simp add: convert_all_document_meshes_def find_all_mesh_objects_def Let_def empty_results_def)
next
  show "fst (convert_all_document_meshes host show_summary doc) = Inr None \<longleftrightarrow>
      doc = None \<or>
      (\<exists>d opened e d2 d3. doc = Some d \<and> fst (find_all_mesh_objects (Some d)) \<noteq> [] \<and>
         openTransaction host ''Convert All Document Meshes'' d = (Inr (), opened) \<and>
         batch_try host (fst (find_all_mesh_objects (Some d))) opened = (Inl e, d2) \<and>
         abortTransaction host d2 = (Inr (), d3))"
  proof (cases doc)
    case None
    then show ?thesis by (simp add: convert_all_document_meshes_def)
  next
    case (Some d)
    obtain found summary where f: "find_all_mesh_objects (Some d) = (found, summary)"
      by (cases "find_all_mesh_objects (Some d)")
    show ?thesis
    proof (cases "found = []")
      case True
      then show ?thesis using Some f by (simp add: convert_all_document_meshes_def)
    next
      case False
      obtain r0 opened where o: "openTransaction host ''Convert All Document Meshes'' d = (r0, opened)"
        by (cases "openTransaction host ''Convert All Document Meshes'' d")
      show ?thesis
      proof (cases r0)
        case (Inl e)
        then show ?thesis using Some f False o by (simp add: convert_all_document_meshes_def)
      next
        case (Inr u)
        obtain r1 d2 where b: "batch_try host found opened = (r1, d2)"
          by (cases "batch_try host found opened")
        show ?thesis
        proof (cases r1)
          case (Inl e)
          obtain r2 d3 where a: "abortTransaction host d2 = (r2, d3)"
            by (cases "abortTransaction host d2")
          show ?thesis
            using Some f False o Inr b Inl a
            by (cases r2) (simp_all add: convert_all_document_meshes_def)
        next
          case r: (Inr results)
          obtain r2 d3 where a: "recompute host d2 = (r2, d3)"
            by (cases "recompute host d2")
          show ?thesis
            using Some f False o Inr b r a
            by (cases r2) (simp_all add: convert_all_document_meshes_def)
        qed
      qed
    qed
  qed
qed

lemma convert_open_doc:
  "convert_single_mesh plain_host ''Cube'' True open_doc = (Inr (False, None), open_doc)"
  by code_simp

lemma convert_sphere_doc:
  "convert_single_mesh plain_host ''Ball'' True sphere_doc = (Inr (False, None), sphere_doc)"
  by code_simp

lemma convert_clean_doc:
  "convert_single_mesh plain_host ''Cube'' True clean_doc = (Inr (True, Some ''Cube_Body''), converted_doc)"
  by code_simp


lemma crowded_found: "fst (find_all_mesh_objects (Some crowded_doc)) = [''Cube'', ''Cube_solid_simple'']"
  by code_simp

lemma crowded_opened:
  "openTransaction plain_host ''Convert All Document Meshes'' crowded_doc =
     (Inr (), crowded_doc\<lparr>transaction := Some (''Convert All Document Meshes'', Objects crowded_doc),
                          history := [Opened ''Convert All Document Meshes'']\<rparr>)"
  by code_simp

lemma crowded_batch:
  "fst (batch_try plain_host [''Cube'', ''Cube_solid_simple'']
          (crowded_doc\<lparr>transaction := Some (''Convert All Document Meshes'', Objects crowded_doc),
                       history := [Opened ''Convert All Document Meshes'']\<rparr>)) = Inl ReferenceError"
  by code_simp

lemma open_found: "fst (find_all_mesh_objects (Some open_doc)) = [''Cube'']"
  by code_simp

lemma open_opened:
  "openTransaction plain_host ''Convert All Document Meshes'' open_doc =
     (Inr (), open_doc\<lparr>transaction := Some (''Convert All Document Meshes'', Objects open_doc),
                       history := [Opened ''Convert All Document Meshes'']\<rparr>)"
  by code_simp

lemma open_batch:
  "batch_try plain_host [''Cube'']
     (open_doc\<lparr>transaction := Some (''Convert All Document Meshes'', Objects open_doc),
                history := [Opened ''Convert All Document Meshes'']\<rparr>) =
   (Inr ((initial_results 1)\<lparr>skipped := 1, skipped_objects := Some [''Cube'']\<rparr>),
    open_doc\<lparr>history := [Opened ''Convert All Document Meshes'',
                           Committed ''Convert All Document Meshes'']\<rparr>)"
  by code_simp

text \<open>
  Two meshes, \<^verbatim>\<open>Cube\<close> and \<^verbatim>\<open>Cube_solid_simple\<close>. The conversion of the first fails at the
  validity test, and its handler removes the second by name; the loop then reads the name of
  a deleted object, which raises: the batch is aborted and every object is back. With one
  mesh that is skipped, the loop ends and the transaction is committed.
\<close>

theorem batch_all_or_nothing_witness:
  "convert_all_document_meshes plain_host True (Some crowded_doc) =
     (Inr None,
      Some (crowded_doc\<lparr>history := [Opened ''Convert All Document Meshes'',
                                    Aborted ''Convert All Document Meshes'']\<rparr>))
   \<and> history (snd (batch_try plain_host [''Cube'']
        (open_doc\<lparr>transaction := Some (''Convert All Document Meshes'', Objects open_doc),
                   history := [Opened ''Convert All Document Meshes'']\<rparr>))) =
       [Opened ''Convert All Document Meshes'', Committed ''Convert All Document Meshes'']"
proof -
  let ?opened = "crowded_doc\<lparr>transaction := Some (''Convert All Document Meshes'', Objects crowded_doc),
                          history := [Opened ''Convert All Document Meshes'']\<rparr>"
  obtain d2 where b: "batch_try plain_host [''Cube'', ''Cube_solid_simple''] ?opened = (Inl ReferenceError, d2)"
    using crowded_batch by (cases "batch_try plain_host [''Cube'', ''Cube_solid_simple''] ?opened") auto
  have ne: "[''Cube'', ''Cube_solid_simple''] \<noteq> []" by simp
  have p1: "convert_all_document_meshes plain_host True (Some crowded_doc) =
     (Inr None,
      Some (crowded_doc\<lparr>history := [Opened ''Convert All Document Meshes'',
                                    Aborted ''Convert All Document Meshes'']\<rparr>))"
  proof -
    have "convert_all_document_meshes plain_host True (Some crowded_doc) =
       (Inr None,
        Some (d2\<lparr>Objects := Objects crowded_doc, transaction := None,
                 history := [Opened ''Convert All Document Meshes'',
                             Aborted ''Convert All Document Meshes'']\<rparr>))"
      using batch_all_or_nothing [OF crowded_found ne crowded_opened, of True]
      by (simp add: b)
    then show ?thesis
      by (cases d2) (simp add: crowded_doc_def doc_of_def)
  qed
  have ne2: "[''Cube''] \<noteq> []" by simp
  have p2: "history (snd (batch_try plain_host [''Cube'']
        (open_doc\<lparr>transaction := Some (''Convert All Document Meshes'', Objects open_doc),
                   history := [Opened ''Convert All Document Meshes'']\<rparr>))) =
       [Opened ''Convert All Document Meshes'', Committed ''Convert All Document Meshes'']"
    using batch_all_or_nothing [OF open_found ne2 open_opened, of True]
    by (auto simp add: open_batch)
  from p1 p2 show ?thesis by simp
qed

text \<open>No document gives \<^verbatim>\<open>None\<close>; an empty document gives the zero counts.\<close>

theorem batch_returns_None_iff_witness:
  "fst (convert_all_document_meshes plain_host True None) = Inr None
   \<and> convert_all_document_meshes plain_host True (Some (doc_of [])) =
       (Inr (Some \<lparr>total_meshes = 0, converted = 0, failed = 0, skipped = 0,
                    converted_objects = None, failed_objects = None,
                    skipped_objects = None\<rparr>), Some (doc_of []))"
proof -
  have e: "\<forall>ob \<in> set (Objects (doc_of [] :: (plain_mesh, plain_shape) document)). Mesh ob = None"
    by (simp add: doc_of_def)
  from batch_returns_None_iff [of plain_host True None]
    batch_returns_None_iff [of plain_host True "Some (doc_of [])"] e
  show ?thesis by blast
qed

subsection \<open>Stages that only add objects\<close>

lemma extends_refl [simp]: "extends [] d d"
  by (simp add: extends_def)

lemma extends_trans:
  assumes "extends cs d d'" and "extends cs' d' d''"
  shows "extends (cs @ cs') d d''"
proof -
  from assms(1) obtain old new where
    a: "Objects d' = old @ new" "map Name old = map Name (Objects d)"
       "map TypeId old = map TypeId (Objects d)" "map Mesh old = map Mesh (Objects d)"
       "map Name new = cs" "txn d' = txn d"
    by (auto simp: extends_def)
  from assms(2) obtain old' new' where
    b: "Objects d'' = old' @ new'" "map Name old' = map Name (Objects d')"
       "map TypeId old' = map TypeId (Objects d')" "map Mesh old' = map Mesh (Objects d')"
       "map Name new' = cs'" "txn d'' = txn d'"
    by (auto simp: extends_def)
  let ?k = "length old"
  have len: "length old' = length old + length new"
    using b(2) a(1) by (metis length_append length_map)
  have split: "old' = take ?k old' @ drop ?k old'" by simp
  have tk: "map f (take ?k old') = take ?k (map f old')" for f :: "('a, 'b) doc_object \<Rightarrow> 'c"
    by (simp add: take_map)
  have dk: "map f (drop ?k old') = drop ?k (map f old')" for f :: "('a, 'b) doc_object \<Rightarrow> 'c"
    by (simp add: drop_map)
  have 1: "map Name (take ?k old') = map Name (Objects d)"
    by (simp add: tk b(2) a(1) a(2) [symmetric])
  have 2: "map TypeId (take ?k old') = map TypeId (Objects d)"
    by (simp add: tk b(3) a(1) a(3) [symmetric])
  have 3: "map Mesh (take ?k old') = map Mesh (Objects d)"
    by (simp add: tk b(4) a(1) a(4) [symmetric])
  have 4: "map Name (drop ?k old' @ new') = cs @ cs'"
    by (simp add: dk b(2) a(1) a(5) b(5))
  have "Objects d'' = take ?k old' @ (drop ?k old' @ new')"
    using b(1) by simp
  with 1 2 3 4 a(6) b(6) show ?thesis
    unfolding extends_def by (intro exI [of _ "take ?k old'"] exI [of _ "drop ?k old' @ new'"]) simp
qed

lemma extends_names: "extends cs d d' \<Longrightarrow> names d' = names d @ cs"
  by (auto simp: extends_def names_def)

lemma extends_txn: "extends cs d d' \<Longrightarrow> txn d' = txn d"
  by (auto simp: extends_def)

lemma stage_nothing:
  assumes "\<And>d r d'. m d = (r, d') \<Longrightarrow> extends [] d d'"
  shows "stage [] m"
  using assms by (auto simp: stage_def)

lemma stage_succeed [simp]: "stage [] (succeed a)"
  by (rule stage_nothing) (auto simp: succeed_def)

lemma stage_raise_exn [simp]: "stage [] (raise_exn e)"
  by (rule stage_nothing) (auto simp: raise_exn_def)

lemma stage_of_result [simp]: "stage [] (of_result r)"
  by (rule stage_nothing) (auto simp: of_result_def)

lemma stage_get [simp]:
  "stage [] (get_Name h)" "stage [] (get_Mesh h)" "stage [] (get_Shape h)"
  by (rule stage_nothing; auto simp: get_Name_def get_Mesh_def get_Shape_def split: option.splits)+

lemma extends_map:
  assumes "\<And>ob. Name (f ob) = Name ob" "\<And>ob. TypeId (f ob) = TypeId ob" "\<And>ob. Mesh (f ob) = Mesh ob"
  shows "extends [] d (d\<lparr>Objects := map f (Objects d)\<rparr>)"
  unfolding extends_def
  by (intro exI [of _ "map f (Objects d)"] exI [of _ "[]"]) (simp add: assms txn_def)

lemma stage_set_attr:
  assumes "\<And>ob. Name (f ob) = Name ob" "\<And>ob. TypeId (f ob) = TypeId ob" "\<And>ob. Mesh (f ob) = Mesh ob"
  shows "stage [] (set_attr h f)"
proof (rule stage_nothing)
  fix d r d'
  assume run: "set_attr h f d = (r, d')"
  show "extends [] d d'"
  proof (cases "getObject d h")
    case None
    with run show ?thesis by (simp add: set_attr_def)
  next
    case (Some ob)
    with run have "d' = d\<lparr>Objects := map (\<lambda>ob. if Name ob = h then f ob else ob) (Objects d)\<rparr>"
      by (simp add: set_attr_def update_object_def)
    then show ?thesis using assms by (simp add: extends_map)
  qed
qed

lemma stage_setters [simp]:
  "stage [] (set_Shape h s)" "stage [] (set_Source h src)"
  "stage [] (set_BaseFeature h b)" "stage [] (set_Visibility h v)"
  by (simp_all add: set_Shape_def set_Source_def set_BaseFeature_def set_Visibility_def stage_set_attr)

lemma stage_recompute [simp]: "stage [] (recompute host)"
proof (rule stage_nothing)
  fix d r d'
  assume "recompute host d = (r, d')"
  then show "extends [] d d'"
    by (auto simp: recompute_def extends_map split: if_splits)
qed

lemma stage_addObject [simp]: "stage [p] (addObject host ty p)"
  unfolding stage_def
proof (intro allI impI)
  fix d r d'
  assume a: "distinct [p] \<and> set [p] \<inter> set (names d) = {} \<and> addObject host ty p d = (r, d')"
  then have fresh: "p \<notin> set (map Name (Objects d))" by (simp add: names_def)
  show "\<exists>cs. prefix cs [p] \<and> (\<not> isl r \<longrightarrow> cs = [p]) \<and> extends cs d d'"
  proof (cases "raises host (AddObject ty p) d")
    case True
    with a have "r = Inl HostError" "d' = d" by (auto simp: addObject_def)
    then show ?thesis by (intro exI [of _ "[]"]) simp
  next
    case False
    with a fresh have "d' = d\<lparr>Objects := Objects d @ [new_object host ty p]\<rparr>"
      by (auto simp: addObject_def Let_def)
    then have "extends [p] d d'"
      unfolding extends_def
      by (intro exI [of _ "Objects d"] exI [of _ "[new_object host ty p]"])
         (simp add: new_object_def txn_def)
    then show ?thesis by (intro exI [of _ "[p]"]) simp
  qed
qed

lemma stage_seq:
  assumes "stage ps m" and "\<And>a. stage qs (f a)"
  shows "stage (ps @ qs) (seq m f)"
  unfolding stage_def
proof (intro allI impI)
  fix d r d'
  assume a: "distinct (ps @ qs) \<and> set (ps @ qs) \<inter> set (names d) = {} \<and> seq m f d = (r, d')"
  obtain r1 d1 where m: "m d = (r1, d1)" by (cases "m d")
  from a have pre1: "distinct ps \<and> set ps \<inter> set (names d) = {}" by auto
  with assms(1) m obtain cs1 where
    c1: "prefix cs1 ps" "\<not> isl r1 \<longrightarrow> cs1 = ps" "extends cs1 d d1"
    unfolding stage_def by blast
  show "\<exists>cs. prefix cs (ps @ qs) \<and> (\<not> isl r \<longrightarrow> cs = ps @ qs) \<and> extends cs d d'"
  proof (cases r1)
    case (Inl e)
    with a m have "r = Inl e" "d' = d1" by (simp_all add: seq_def)
    with c1 show ?thesis by (intro exI [of _ cs1]) (auto intro: prefix_prefix)
  next
    case (Inr x)
    with a m have run2: "f x d1 = (r, d')" by (simp add: seq_def)
    from Inr c1 have cs1: "cs1 = ps" by simp
    have n1: "names d1 = names d @ ps" using extends_names [OF c1(3)] cs1 by simp
    have pre2: "distinct qs \<and> set qs \<inter> set (names d1) = {}" using a n1 by auto
    with assms(2) [of x] run2 obtain cs2 where
      c2: "prefix cs2 qs" "\<not> isl r \<longrightarrow> cs2 = qs" "extends cs2 d1 d'"
      unfolding stage_def by blast
    have "extends (ps @ cs2) d d'" using extends_trans [OF c1(3) c2(3)] cs1 by simp
    with c2 show ?thesis by (intro exI [of _ "ps @ cs2"]) auto
  qed
qed

lemma stage_seq_nothing:
  assumes "stage [] m" and "\<And>a. stage qs (f a)"
  shows "stage qs (seq m f)"
  using stage_seq [OF assms] by simp

lemma stage_seq_last:
  assumes "stage ps m" and "\<And>a. stage [] (f a)"
  shows "stage ps (seq m f)"
  using stage_seq [OF assms] by simp

lemma stage_mesh_to_shape: "stage [base @ ''_shape''] (mesh_to_shape host h base)"
  unfolding mesh_to_shape_def
  by (intro stage_seq_last stage_seq_nothing) simp_all

lemma stage_shape_to_solid: "stage [base @ ''_solid''] (shape_to_solid host base shape_obj)"
  unfolding shape_to_solid_def
  by (intro stage_seq_last stage_seq_nothing) simp_all

lemma stage_refine_solid: "stage [base @ ''_solid_refined''] (refine_solid host base solid_obj)"
  unfolding refine_solid_def
  by (intro stage_seq_last stage_seq_nothing) simp_all

lemma stage_convert_build:
  "stage [base @ ''_shape'', base @ ''_solid'', base @ ''_solid_refined'']
     (convert_build host h base)"
proof -
  have tail: "stage [] (seq (recompute host) (\<lambda>u4.
     seq (get_Shape refined_obj) (\<lambda>refined_shape.
     seq (if bool_Shape host refined_shape
          then of_result (isValid host refined_shape)
          else succeed False) (\<lambda>valid.
       succeed (shape_obj, solid_obj, refined_obj, valid)))))" for shape_obj solid_obj refined_obj
    by (intro stage_seq_nothing) simp_all
  have 3: "stage [base @ ''_solid_refined'']
     (seq (refine_solid host base solid_obj) (\<lambda>refined_obj.
     seq (recompute host) (\<lambda>u4.
     seq (get_Shape refined_obj) (\<lambda>refined_shape.
     seq (if bool_Shape host refined_shape
          then of_result (isValid host refined_shape)
          else succeed False) (\<lambda>valid.
       succeed (shape_obj, solid_obj, refined_obj, valid))))))" for shape_obj solid_obj
    by (intro stage_seq_last stage_refine_solid tail)
  have 2: "stage ([base @ ''_solid''] @ [base @ ''_solid_refined''])
     (seq (shape_to_solid host base shape_obj) (\<lambda>solid_obj.
     seq (refine_solid host base solid_obj) (\<lambda>refined_obj.
     seq (recompute host) (\<lambda>u4.
     seq (get_Shape refined_obj) (\<lambda>refined_shape.
     seq (if bool_Shape host refined_shape
          then of_result (isValid host refined_shape)
          else succeed False) (\<lambda>valid.
       succeed (shape_obj, solid_obj, refined_obj, valid)))))))" for shape_obj
    by (intro stage_seq stage_shape_to_solid 3)
  have "stage ([base @ ''_shape''] @ [base @ ''_solid''] @ [base @ ''_solid_refined''])
     (convert_build host h base)"
    unfolding convert_build_def
    by (intro stage_seq stage_mesh_to_shape 2)
  then show ?thesis by simp
qed

subsection \<open>Claims about the conversion: the failure path\<close>

lemma find_same_names:
  assumes "map Name xs = map Name ys" "map TypeId xs = map TypeId ys" "map Mesh xs = map Mesh ys"
    and "find (\<lambda>ob. Name ob = n) ys = Some ob"
  shows "\<exists>ob'. find (\<lambda>ob. Name ob = n) xs = Some ob' \<and> Mesh ob' = Mesh ob \<and> TypeId ob' = TypeId ob"
proof -
  have "length xs = length ys" using assms(1) by (metis length_map)
  then show ?thesis using assms
    by (induction xs ys rule: list_induct2) (auto split: if_splits)
qed

lemma find_append_Some:
  "find P xs = Some x \<Longrightarrow> find P (xs @ ys) = Some x"
  by (induction xs) (auto split: if_splits)

lemma extends_getObject:
  assumes "extends cs d d'" and "getObject d n = Some ob"
  shows "\<exists>ob'. getObject d' n = Some ob' \<and> Mesh ob' = Mesh ob \<and> TypeId ob' = TypeId ob"
proof -
  from assms(1) obtain old new where
    a: "Objects d' = old @ new" "map Name old = map Name (Objects d)"
       "map TypeId old = map TypeId (Objects d)" "map Mesh old = map Mesh (Objects d)"
    by (auto simp: extends_def)
  from find_same_names [OF a(2,3,4)] assms(2) obtain ob' where
    f: "find (\<lambda>ob. Name ob = n) old = Some ob'" "Mesh ob' = Mesh ob" "TypeId ob' = TypeId ob"
    by (auto simp: getObject_def)
  then have "getObject d' n = Some ob'"
    by (simp add: getObject_def a(1) find_append_Some)
  with f show ?thesis by blast
qed

lemma filter_fresh:
  "n \<notin> set (map Name xs) \<Longrightarrow> filter (\<lambda>ob. Name ob \<noteq> n) xs = xs"
  by (induction xs) auto

lemma map_Name_filter:
  "map Name (filter (\<lambda>ob. Name ob \<noteq> n) xs) = filter (\<lambda>c. c \<noteq> n) (map Name xs)"
  by (induction xs) auto

lemma removeObject_extends:
  assumes "extends cs d1 d3" and "n \<notin> set (names d1)"
  shows "extends (if raises host (RemoveObject n) d3 then cs else filter (\<lambda>c. c \<noteq> n) cs) d1
           (snd (removeObject host n d3))"
proof (cases "raises host (RemoveObject n) d3")
  case True
  with assms(1) show ?thesis by (simp add: removeObject_def)
next
  case False
  from assms(1) obtain old new where
    a: "Objects d3 = old @ new" "map Name old = map Name (Objects d1)"
       "map TypeId old = map TypeId (Objects d1)" "map Mesh old = map Mesh (Objects d1)"
       "map Name new = cs" "txn d3 = txn d1"
    by (auto simp: extends_def)
  have "n \<notin> set (map Name old)" using assms(2) a(2) by (simp add: names_def)
  then have "filter (\<lambda>ob. Name ob \<noteq> n) (old @ new) = old @ filter (\<lambda>ob. Name ob \<noteq> n) new"
    by (simp add: filter_fresh)
  moreover have "map Name (filter (\<lambda>ob. Name ob \<noteq> n) new) = filter (\<lambda>c. c \<noteq> n) cs"
    using a(5) by (simp add: map_Name_filter)
  ultimately show ?thesis
    using False a unfolding extends_def
    by (intro exI [of _ old] exI [of _ "filter (\<lambda>ob. Name ob \<noteq> n) new"])
       (simp add: removeObject_def txn_def)
qed

lemma remove_temp_objects_extends:
  assumes "extends cs d1 d3" and "set ns \<inter> set (names d1) = {}"
  shows "\<exists>cs'. remove_temp_objects host ns d3 = (Inr (), snd (remove_temp_objects host ns d3)) \<and>
           extends cs' d1 (snd (remove_temp_objects host ns d3)) \<and> set cs' \<subseteq> set cs \<and>
           (\<forall>n \<in> set ns. (\<forall>x. \<not> raises host (RemoveObject n) x) \<longrightarrow> n \<notin> set cs')"
  using assms
proof (induction ns arbitrary: cs d3)
  case Nil
  then show ?case by (auto simp: succeed_def)
next
  case (Cons n ns)
  let ?cs1 = "if raises host (RemoveObject n) d3 then cs else filter (\<lambda>c. c \<noteq> n) cs"
  let ?d = "snd (removeObject host n d3)"
  have e1: "extends ?cs1 d1 ?d"
    using removeObject_extends [OF Cons.prems(1), of n host] Cons.prems(2) by simp
  have "set ns \<inter> set (names d1) = {}" using Cons.prems(2) by auto
  from Cons.IH [OF e1 this] obtain cs' where
    ih: "remove_temp_objects host ns ?d = (Inr (), snd (remove_temp_objects host ns ?d))"
        "extends cs' d1 (snd (remove_temp_objects host ns ?d))" "set cs' \<subseteq> set ?cs1"
        "\<forall>n \<in> set ns. (\<forall>x. \<not> raises host (RemoveObject n) x) \<longrightarrow> n \<notin> set cs'"
    by blast
  have sub: "set cs' \<subseteq> set cs" using ih(3) by (auto split: if_splits)
  have hd: "(\<forall>x. \<not> raises host (RemoveObject n) x) \<longrightarrow> n \<notin> set cs'"
    using ih(3) by (auto split: if_splits)
  show ?case
    using ih(1,2,4) sub hd by (intro exI [of _ cs']) auto
qed

lemma prefix_temp_names:
  "prefix cs [base @ ''_shape'', base @ ''_solid'', base @ ''_solid_refined''] \<Longrightarrow>
   set cs \<subseteq> set (temp_names base)"
  using set_mono_prefix [of cs "[base @ ''_shape'', base @ ''_solid'', base @ ''_solid_refined'']"]
  by (auto simp: temp_names_def)

lemma keeps_txn_evaluate_any: "evaluate_mesh_automated host h d = (r, d') \<Longrightarrow> txn d' = txn d"
  by (rule keepsD [OF keeps_txn_evaluate])

lemma seq_run:
  assumes "seq m f d = (r, d')"
  obtains (raised) e where "m d = (Inl e, d')" "r = Inl e"
        | (returned) a d1 where "m d = (Inr a, d1)" "f a d1 = (r, d')"
  using assms by (auto simp: seq_def split: prod.splits sum.splits)

lemma seq_assoc: "seq (seq m f) g = seq m (\<lambda>a. seq (f a) g)"
  by (rule ext) (simp add: seq_def split: prod.splits sum.splits)

lemma seq_succeed: "seq (succeed a) f = f a"
  by (rule ext) (simp add: seq_def succeed_def)

lemma seq_raise_exn: "seq (raise_exn e) f = raise_exn e"
  by (rule ext) (simp add: seq_def raise_exn_def)

lemma seq_if: "seq (if c then m else n) f = (if c then seq m f else seq n f)"
  by simp

lemma seq_case_prod: "seq (case x of (a, b) \<Rightarrow> m a b) f = (case x of (a, b) \<Rightarrow> seq (m a b) f)"
  by (cases x) simp

text \<open>The conversion is its part up to the removal of the mesh, then lines 297 to 304.\<close>

lemma convert_steps_split:
  "convert_steps host h bt base =
     seq (convert_until_removal host h base) (\<lambda>made.
     seq (recompute host) (\<lambda>u7.
     seq (get_Name (snd made)) (\<lambda>logged_name.
     seq (if \<not> bt then commitTransaction host else succeed ()) (\<lambda>u8.
     seq (get_Name (snd made)) (\<lambda>body_name.
       succeed (True, Some body_name))))))"
  unfolding convert_steps_def convert_finish_def convert_until_removal_def
  by (simp only: seq_assoc seq_succeed seq_raise_exn seq_if seq_case_prod)

lemma convert_until_removal_steps:
  "convert_until_removal host h base d = (Inl e, d') \<Longrightarrow>
   convert_steps host h bt base d = (Inl e, d')"
  by (simp add: convert_steps_split seq_def)

lemma addObject_cases:
  assumes "addObject host ty p d = (r, d')"
  shows "(r = Inl HostError \<and> d' = d) \<or>
         (\<exists>n. r = Inr n \<and> d' = d\<lparr>Objects := Objects d @ [new_object host ty n]\<rparr> \<and>
              (p \<notin> set (names d) \<longrightarrow> n = p))"
  using assms
  by (cases "raises host (AddObject ty p) d") (auto simp: addObject_def Let_def names_def)

lemma extends_addObject: "extends [n] d (d\<lparr>Objects := Objects d @ [new_object host ty n]\<rparr>)"
  unfolding extends_def
  by (intro exI [of _ "Objects d"] exI [of _ "[new_object host ty n]"])
     (simp add: new_object_def txn_def)

lemma stage_nothingD: "stage [] m \<Longrightarrow> m d = (r, d') \<Longrightarrow> extends [] d d'"
  by (auto simp: stage_def)

lemma stage_run:
  assumes "stage ps m" "distinct ps" "set ps \<inter> set (names d) = {}" "m d = (r, d')"
  shows "\<exists>cs. prefix cs ps \<and> extends cs d d'"
  using assms unfolding stage_def by blast

lemma stage_returns:
  assumes "stage ps m" "distinct ps" "set ps \<inter> set (names d) = {}" "m d = (Inr a, d')"
  shows "extends ps d d'"
  using assms unfolding stage_def by fastforce

lemma snd_get_Shape [simp]: "snd (get_Shape h d) = d"
  by (simp add: get_Shape_def split: option.splits)

lemma get_Shape_state: "get_Shape h d = (r, d') \<Longrightarrow> d' = d"
  using snd_get_Shape [of h d] by simp

lemma get_Name_state: "get_Name h d = (r, d') \<Longrightarrow> d' = d"
  using snd_get_Name [of h d] by simp

lemma get_Name_value: "get_Name h d = (Inr n, d') \<Longrightarrow> n = h \<and> h \<in> set (names d)"
  by (auto simp: get_Name_def split: option.splits
      dest: getObject_Some_Name getObject_Some_names)

lemma removeObject_raised: "removeObject host n d = (Inl e, d') \<Longrightarrow> d' = d"
  by (auto simp: removeObject_def split: if_splits)

text \<open>Lines 282 to 287 only add the standalone copy and the body.\<close>

lemma wrap_body_extends:
  assumes run: "wrap_body host base rf d = (r, d')"
    and fresh: "base @ ''_solid_simple'' \<notin> set (names d)"
  shows "\<exists>cs b. extends cs d d' \<and> set cs \<subseteq> {base @ ''_solid_simple'', b} \<and>
           (base @ ''_Body'' \<notin> set (names d) \<longrightarrow> b = base @ ''_Body'')"
proof -
  let ?ss = "base @ ''_solid_simple''" and ?bd = "base @ ''_Body''"
  have early: ?thesis if "extends cs d d'" "set cs \<subseteq> {?ss}" for cs
    using that by (intro exI [of _ cs] exI [of _ ?bd]) auto
  from run [unfolded wrap_body_def] show ?thesis
  proof (cases rule: seq_run)
    case (raised e)
    then have "d' = d" by (auto dest: addObject_cases)
    then show ?thesis by (intro early [of "[]"]) simp_all
  next
    case A: (returned sc dA)
    from A(1) fresh have sc: "sc = ?ss" and eA: "extends [?ss] d dA"
      by (auto dest!: addObject_cases simp: extends_addObject)
    from A(2) show ?thesis
    proof (cases rule: seq_run)
      case (raised e)
      then have "d' = dA" by (simp add: get_Shape_state)
      with eA show ?thesis by (intro early [of "[?ss]"]) simp_all
    next
      case G: (returned rs dA')
      then have "dA' = dA" by (simp add: get_Shape_state)
      with G(2) have "seq (set_Shape sc rs) (\<lambda>u0.
           seq (addObject host ''PartDesign::Body'' ?bd) (\<lambda>body_obj.
           seq (set_BaseFeature body_obj sc) (\<lambda>u1.
           seq (set_Visibility sc False) (\<lambda>u2. succeed (sc, body_obj))))) dA = (r, d')"
        by simp
      then show ?thesis
      proof (cases rule: seq_run)
        case (raised e)
        from stage_nothingD [OF stage_setters(1) raised(1)] have "extends [] dA d'" .
        from extends_trans [OF eA this] show ?thesis by (intro early [of "[?ss]"]) simp_all
      next
        case S: (returned u0 dB)
        from stage_nothingD [OF stage_setters(1) S(1)] have "extends [] dA dB" .
        from extends_trans [OF eA this] have eB: "extends [?ss] d dB" by simp
        have nB: "names dB = names d @ [?ss]" using extends_names [OF eB] .
        from S(2) show ?thesis
        proof (cases rule: seq_run)
          case (raised e)
          then have "d' = dB" by (auto dest: addObject_cases)
          with eB show ?thesis by (intro early [of "[?ss]"]) simp_all
        next
          case B: (returned b dC)
          from B(1) have eC: "extends [b] dB dC"
            and b: "?bd \<notin> set (names dB) \<longrightarrow> b = ?bd"
            by (auto dest!: addObject_cases simp: extends_addObject)
          have tail: "stage [] (seq (set_BaseFeature b sc) (\<lambda>u1.
               seq (set_Visibility sc False) (\<lambda>u2. succeed (sc, b))))"
            by (intro stage_seq_nothing) simp_all
          from stage_nothingD [OF tail B(2)] have "extends [] dC d'" .
          from extends_trans [OF extends_trans [OF eB eC] this]
          have "extends [?ss, b] d d'" by simp
          moreover have "?bd \<notin> set (names d) \<longrightarrow> b = ?bd"
            using b nB by simp
          ultimately show ?thesis
            by (intro exI [of _ "[?ss, b]"] exI [of _ b]) simp
        qed
      qed
    qed
  qed
qed

lemma mesh_to_shape_handle:
  assumes "mesh_to_shape host h base d = (Inr s, d')" and "base @ ''_shape'' \<notin> set (names d)"
  shows "s = base @ ''_shape''"
  using assms
  by (auto simp: mesh_to_shape_def seq_def succeed_def split: prod.splits sum.splits
      dest!: addObject_cases)

lemma shape_to_solid_handle:
  assumes "shape_to_solid host base sh d = (Inr s, d')" and "base @ ''_solid'' \<notin> set (names d)"
  shows "s = base @ ''_solid''"
  using assms
  by (auto simp: shape_to_solid_def seq_def succeed_def split: prod.splits sum.splits
      dest!: addObject_cases)

lemma refine_solid_handle:
  assumes "refine_solid host base so d = (Inr s, d')" and "base @ ''_solid_refined'' \<notin> set (names d)"
  shows "s = base @ ''_solid_refined''"
  using assms
  by (auto simp: refine_solid_def seq_def succeed_def split: prod.splits sum.splits
      dest!: addObject_cases)

text \<open>With the three names unused, the handles that lines 263 to 275 bind are these names.\<close>

lemma convert_build_handles:
  assumes run: "convert_build host h base d = (Inr (s, so, rf, v), d')"
    and fresh: "set [base @ ''_shape'', base @ ''_solid'', base @ ''_solid_refined''] \<inter> set (names d) = {}"
  shows "s = base @ ''_shape'' \<and> so = base @ ''_solid'' \<and> rf = base @ ''_solid_refined''"
proof -
  from run [unfolded convert_build_def] show ?thesis
  proof (cases rule: seq_run)
    case (raised e)
    then show ?thesis by simp
  next
    case A: (returned s' dA)
    have f1: "base @ ''_shape'' \<notin> set (names d)" using fresh by simp
    have s': "s' = base @ ''_shape''" by (rule mesh_to_shape_handle [OF A(1) f1])
    have "extends [base @ ''_shape''] d dA"
      by (rule stage_returns [OF stage_mesh_to_shape _ _ A(1)]) (use f1 in simp_all)
    then have nA: "names dA = names d @ [base @ ''_shape'']" by (rule extends_names)
    from A(2) show ?thesis
    proof (cases rule: seq_run)
      case (raised e)
      then show ?thesis by simp
    next
      case B: (returned so' dB)
      have f2: "base @ ''_solid'' \<notin> set (names dA)" using fresh nA by simp
      have so': "so' = base @ ''_solid''" by (rule shape_to_solid_handle [OF B(1) f2])
      have "extends [base @ ''_solid''] dA dB"
        by (rule stage_returns [OF stage_shape_to_solid _ _ B(1)]) (use f2 in simp_all)
      then have nB: "names dB = names dA @ [base @ ''_solid'']" by (rule extends_names)
      from B(2) show ?thesis
      proof (cases rule: seq_run)
        case (raised e)
        then show ?thesis by simp
      next
        case C: (returned rf' dC)
        have f3: "base @ ''_solid_refined'' \<notin> set (names dB)" using fresh nA nB by simp
        have rf': "rf' = base @ ''_solid_refined''" by (rule refine_solid_handle [OF C(1) f3])
        from C(2) have "s = s' \<and> so = so' \<and> rf = rf'"
          by (auto simp: seq_def succeed_def split: prod.splits sum.splits if_splits)
        with s' so' rf' show ?thesis by simp
      qed
    qed
  qed
qed

text \<open>
  One of the removals of lines 290 to 292 inside the sequence: either the sequence ends
  there, or the rest runs on a document that has lost at most the object of that name.
\<close>

lemma remove_step:
  assumes run: "seq (get_Name x) (\<lambda>n. seq (removeObject host n) K) d5 = (Inl e, d6)"
    and ext: "extends cs d1 d5"
    and fresh: "x \<notin> set (names d1)"
  shows "(\<exists>cs'. extends cs' d1 d6 \<and> set cs' \<subseteq> set cs) \<or>
         (\<exists>dA cs'. K () dA = (Inl e, d6) \<and> extends cs' d1 dA \<and> set cs' \<subseteq> set cs)"
proof -
  from run show ?thesis
  proof (cases rule: seq_run)
    case (raised e')
    then have "d6 = d5" by (simp add: get_Name_state)
    with ext show ?thesis by blast
  next
    case N: (returned n d5')
    then have n: "n = x" and d5': "d5' = d5"
      by (auto dest: get_Name_value get_Name_state)
    let ?cs1 = "if raises host (RemoveObject x) d5 then cs else filter (\<lambda>c. c \<noteq> x) cs"
    have e1: "extends ?cs1 d1 (snd (removeObject host x d5))"
      by (rule removeObject_extends [OF ext fresh])
    have sub: "set ?cs1 \<subseteq> set cs" by auto
    from N(2) [unfolded n d5'] show ?thesis
    proof (cases rule: seq_run)
      case (raised e')
      with e1 have "extends ?cs1 d1 d6" by simp
      with sub show ?thesis by blast
    next
      case (returned u dA)
      with e1 have "extends ?cs1 d1 dA" by simp
      moreover from returned(2) have "K () dA = (Inl e, d6)" by simp
      ultimately show ?thesis using sub by blast
    qed
  qed
qed

text \<open>
  Lines 290 to 295 when one of them raises: the objects that were there before the
  conversion are all still there, the original mesh among them.
\<close>

lemma remove_intermediates_raised:
  assumes run: "remove_intermediates host h s so rf d5 = (Inl e, d6)"
    and ext: "extends cs d1 d5"
    and fresh: "s \<notin> set (names d1)" "so \<notin> set (names d1)" "rf \<notin> set (names d1)"
  shows "\<exists>cs'. extends cs' d1 d6 \<and> set cs' \<subseteq> set cs"
proof -
  let ?K3 = "\<lambda>u5 :: unit. seq (get_Name h) (\<lambda>mesh_name. removeObject host mesh_name)"
  let ?K2 = "\<lambda>u4 :: unit. seq (get_Name rf) (\<lambda>refined_name. seq (removeObject host refined_name) ?K3)"
  let ?K1 = "\<lambda>u3 :: unit. seq (get_Name so) (\<lambda>solid_name. seq (removeObject host solid_name) ?K2)"
  have r1: "seq (get_Name s) (\<lambda>n. seq (removeObject host n) ?K1) d5 = (Inl e, d6)"
    using run by (simp add: remove_intermediates_def)
  from remove_step [of s host ?K1, OF r1 ext fresh(1)] show ?thesis
  proof
    assume "\<exists>cs'. extends cs' d1 d6 \<and> set cs' \<subseteq> set cs"
    then show ?thesis .
  next
    assume "\<exists>dA cs'. ?K1 () dA = (Inl e, d6) \<and> extends cs' d1 dA \<and> set cs' \<subseteq> set cs"
    then obtain dA csA where
      a: "seq (get_Name so) (\<lambda>n. seq (removeObject host n) ?K2) dA = (Inl e, d6)"
         "extends csA d1 dA" "set csA \<subseteq> set cs"
      by auto
    from remove_step [of so host ?K2, OF a(1,2) fresh(2)] show ?thesis
    proof
      assume "\<exists>cs'. extends cs' d1 d6 \<and> set cs' \<subseteq> set csA"
      with a(3) show ?thesis by blast
    next
      assume "\<exists>dB cs'. ?K2 () dB = (Inl e, d6) \<and> extends cs' d1 dB \<and> set cs' \<subseteq> set csA"
      then obtain dB csB where
        b: "seq (get_Name rf) (\<lambda>n. seq (removeObject host n) ?K3) dB = (Inl e, d6)"
           "extends csB d1 dB" "set csB \<subseteq> set csA"
        by auto
      from remove_step [of rf host ?K3, OF b(1,2) fresh(3)] show ?thesis
      proof
        assume "\<exists>cs'. extends cs' d1 d6 \<and> set cs' \<subseteq> set csB"
        with a(3) b(3) show ?thesis by blast
      next
        assume "\<exists>dC cs'. ?K3 () dC = (Inl e, d6) \<and> extends cs' d1 dC \<and> set cs' \<subseteq> set csB"
        then obtain dC csC where
          c: "seq (get_Name h) (\<lambda>mesh_name. removeObject host mesh_name) dC = (Inl e, d6)"
             "extends csC d1 dC" "set csC \<subseteq> set csB"
          by auto
        from c(1) have "d6 = dC"
        proof (cases rule: seq_run)
          case (raised e')
          then show ?thesis by (simp add: get_Name_state)
        next
          case (returned n dC')
          then show ?thesis by (auto dest: get_Name_state removeObject_raised)
        qed
        with c(2,3) a(3) b(3) show ?thesis by blast
      qed
    qed
  qed
qed

text \<open>
  The state in which the handler starts when the conversion fails before the original mesh
  is removed.
\<close>

lemma convert_until_removal_raised:
  assumes run: "convert_until_removal host h h d1 = (Inl e, d3)"
    and fresh: "set (temp_names h) \<inter> set (names d1) = {}"
  shows "\<exists>cs b. extends cs d1 d3 \<and> set cs \<subseteq> set (temp_names h) \<union> {b} \<and>
           (h @ ''_Body'' \<notin> set (names d1) \<longrightarrow> b = h @ ''_Body'')"
proof -
  let ?three = "[h @ ''_shape'', h @ ''_solid'', h @ ''_solid_refined'']"
  have d3: "distinct ?three" by simp
  have f3: "set ?three \<inter> set (names d1) = {}" using fresh by (auto simp: temp_names_def)
  have early: ?thesis if "extends cs d1 d3" "set cs \<subseteq> set (temp_names h)" for cs
    using that by (intro exI [of _ cs] exI [of _ "h @ ''_Body''"]) auto
  from run [unfolded convert_until_removal_def] show ?thesis
  proof (cases rule: seq_run)
    case (raised e')
    from stage_run [OF stage_convert_build d3 f3 raised(1)] obtain cs where
      "prefix cs ?three" "extends cs d1 d3" by blast
    with prefix_temp_names [of cs h] show ?thesis by (intro early [of cs]) simp_all
  next
    case B: (returned built dB)
    obtain s so rf v where built: "built = (s, so, rf, v)" by (cases built)
    have eB: "extends ?three d1 dB"
      by (rule stage_returns [OF stage_convert_build d3 f3 B(1)])
    have nB: "names dB = names d1 @ ?three" by (rule extends_names [OF eB])
    have hs: "s = h @ ''_shape''" "so = h @ ''_solid''" "rf = h @ ''_solid_refined''"
      using convert_build_handles [OF B(1) [unfolded built] f3] by simp_all
    have sub3: "set ?three \<subseteq> set (temp_names h)" by (simp add: temp_names_def)
    show ?thesis
    proof (cases v)
      case False
      with B(2) built have "d3 = dB" by (simp add: raise_exn_def)
      with eB sub3 show ?thesis by (intro early [of ?three]) simp_all
    next
      case True
      with B(2) built have w: "seq (wrap_body host h rf) (\<lambda>made.
           seq (remove_intermediates host h s so rf) (\<lambda>u6. succeed made)) dB = (Inl e, d3)"
        by simp
      have fw: "h @ ''_solid_simple'' \<notin> set (names dB)"
        using fresh nB by (auto simp: temp_names_def)
      have grown: "\<exists>cs b. extends cs d1 dW \<and> set cs \<subseteq> set (temp_names h) \<union> {b} \<and>
           (h @ ''_Body'' \<notin> set (names d1) \<longrightarrow> b = h @ ''_Body'')"
        if "wrap_body host h rf dB = (r, dW)" for r dW
      proof -
        from wrap_body_extends [OF that fw] obtain cs b where
          c: "extends cs dB dW" "set cs \<subseteq> {h @ ''_solid_simple'', b}"
             "h @ ''_Body'' \<notin> set (names dB) \<longrightarrow> b = h @ ''_Body''"
          by blast
        have "extends (?three @ cs) d1 dW" by (rule extends_trans [OF eB c(1)])
        moreover have "set (?three @ cs) \<subseteq> set (temp_names h) \<union> {b}"
          using c(2) by (auto simp: temp_names_def)
        moreover have "h @ ''_Body'' \<notin> set (names d1) \<longrightarrow> b = h @ ''_Body''"
          using c(3) nB by simp
        ultimately show ?thesis by blast
      qed
      from w show ?thesis
      proof (cases rule: seq_run)
        case (raised e')
        from grown [OF raised(1)] show ?thesis .
      next
        case W: (returned made dW)
        from grown [OF W(1)] obtain cs b where
          c: "extends cs d1 dW" "set cs \<subseteq> set (temp_names h) \<union> {b}"
             "h @ ''_Body'' \<notin> set (names d1) \<longrightarrow> b = h @ ''_Body''"
          by blast
        from W(2) have "remove_intermediates host h s so rf dW = (Inl e, d3)"
          by (auto simp: seq_def succeed_def split: prod.splits sum.splits)
        from remove_intermediates_raised [OF this c(1)] f3 hs obtain cs' where
          "extends cs' d1 d3" "set cs' \<subseteq> set cs" by auto
        with c(2,3) show ?thesis by blast
      qed
    qed
  qed
qed

lemma keeps_txn_convert_until_removal [intro!, simp]:
  "keeps txn (convert_until_removal host h base)"
  unfolding convert_until_removal_def wrap_body_def remove_intermediates_def
  by (intro keeps_seq keeps_if keeps_case_prod) simp_all

lemma keeps_names_commitTransaction [intro!, simp]: "keeps names (commitTransaction host)"
  by (auto simp: keeps_def commitTransaction_def names_def split: if_splits option.splits)

lemma commitTransaction_raised: "commitTransaction host d = (Inl e, d') \<Longrightarrow> d' = d"
  by (auto simp: commitTransaction_def split: if_splits option.splits)

text \<open>
  A conversion that raises has not committed: the commit of line 302 is the last call
  that can raise.
\<close>

lemma convert_steps_raised_txn:
  assumes "convert_steps host h bt base d = (Inl e, d')"
  shows "txn d' = txn d"
proof -
  from assms [unfolded convert_steps_split] show ?thesis
  proof (cases rule: seq_run)
    case (raised e')
    from keepsD [OF keeps_txn_convert_until_removal raised(1)] show ?thesis .
  next
    case U: (returned made dA)
    from keepsD [OF keeps_txn_convert_until_removal U(1)] have tA: "txn dA = txn d" .
    from U(2) show ?thesis
    proof (cases rule: seq_run)
      case (raised e')
      from keepsD [OF keeps_txn_recompute raised(1)] tA show ?thesis by simp
    next
      case R: (returned u7 dB)
      from keepsD [OF keeps_txn_recompute R(1)] tA have tB: "txn dB = txn d" by simp
      from R(2) show ?thesis
      proof (cases rule: seq_run)
        case (raised e')
        then have "d' = dB" by (simp add: get_Name_state)
        with tB show ?thesis by simp
      next
        case N: (returned logged dB')
        then have dB': "dB' = dB" and ex: "snd made \<in> set (names dB)"
          by (auto dest: get_Name_state get_Name_value)
        from N(2) [unfolded dB'] show ?thesis
        proof (cases rule: seq_run)
          case (raised e')
          then have "d' = dB"
            by (cases bt) (auto simp: succeed_def dest: commitTransaction_raised)
          with tB show ?thesis by simp
        next
          case C: (returned u8 dC)
          have "names dC = names dB"
            using C(1) keepsD [OF keeps_names_commitTransaction, of host dB "Inr u8" dC]
            by (cases bt) (auto simp: succeed_def)
          with ex have "get_Name (snd made) dC = (Inr (snd made), dC)"
            by (simp add: get_Name_exists)
          with C(2) show ?thesis by (simp add: seq_def succeed_def)
        qed
      qed
    qed
  qed
qed

lemma remove_temp_objects_returns: "fst (remove_temp_objects host ns d) = Inr ()"
  by (induction ns arbitrary: d) (simp_all add: succeed_def)

lemma convert_try_raised:
  assumes "evaluate_mesh_automated host h d0 = (Inr ''proceed'', d1)"
    and "get_Mesh h d1 = (Inr m, d1)"
    and "convert_steps host h bt h d1 = (Inl e, d3)"
  shows "convert_try host h bt d0 = (Inl (e, Some h), d3)"
proof -
  have nm: "get_Name h d1 = (Inr h, d1)"
    by (rule get_Name_exists [OF get_Mesh_exists [OF assms(2)]])
  show ?thesis
    using assms(1,3) nm by (simp add: convert_try_def seq_def with_locals_def)
qed

lemma enter_transaction_owned [simp]: "enter_transaction host h True d = (Inr (), d)"
  by (simp add: enter_transaction_def succeed_def)

lemma enter_transaction_opened:
  assumes "enter_transaction host h False d = (Inr (), d0)"
  shows "h \<in> set (names d) \<and> transaction d0 = Some (''Convert Mesh: '' @ h, Objects d) \<and>
         Objects d0 = Objects d"
proof -
  obtain r1 d1 where g: "get_Name h d = (r1, d1)" by (cases "get_Name h d")
  show ?thesis
  proof (cases "getObject d h")
    case None
    with assms show ?thesis
      by (simp add: enter_transaction_def seq_def get_Name_def)
  next
    case (Some ob)
    then have n: "Name ob = h" by (rule getObject_Some_Name)
    have ex: "h \<in> set (names d)" by (rule getObject_Some_names [OF Some])
    from assms Some n have "openTransaction host (''Convert Mesh: '' @ h) d = (Inr (), d0)"
      by (simp add: enter_transaction_def seq_def get_Name_def)
    then show ?thesis using ex
      by (auto simp: openTransaction_def split: if_splits)
  qed
qed

lemma convert_except_bound:
  "convert_except host h bt (e, Some base) d =
     seq (remove_temp_objects host (filter (\<lambda>name. getObject d name \<noteq> None) (temp_names base)))
       (\<lambda>u0. seq (if \<not> bt then abortTransaction host else succeed ())
       (\<lambda>u1. seq (get_Name h) (\<lambda>logged_name. succeed (False, None)))) d"
  by (simp add: convert_except_def Let_def)


lemma thin_evaluate:
  "evaluate_mesh_automated plain_host ''Cube'' thin_doc = (Inr ''proceed'', thin_doc)"
  by code_simp

lemma thin_fresh: "set (temp_names ''Cube'') \<inter> set (names thin_doc) = {}"
  by (simp add: temp_names_def names_def thin_doc_def doc_of_def mesh_feature_def)

lemma thin_enter: "enter_transaction plain_host ''Cube'' False thin_doc = (Inr (), thin_opened)"
  by code_simp

lemma thin_opened_evaluate:
  "evaluate_mesh_automated plain_host ''Cube'' thin_opened = (Inr ''proceed'', thin_opened)"
  by code_simp

lemma thin_until:
  "fst (convert_until_removal plain_host ''Cube'' ''Cube'' thin_doc) =
     Inl (ValueError ''Refined solid was invalid'')"
  by code_simp

lemma thin_opened_steps:
  "fst (convert_steps plain_host ''Cube'' False ''Cube'' thin_opened) =
     Inl (ValueError ''Refined solid was invalid'')"
  by code_simp

lemma sticky_evaluate:
  "evaluate_mesh_automated sticky_host ''Cube'' clean_doc = (Inr ''proceed'', clean_doc)"
  by code_simp

lemma sticky_until:
  "fst (convert_until_removal sticky_host ''Cube'' ''Cube'' clean_doc) = Inl HostError"
  by code_simp

lemma clean_fresh: "set (temp_names ''Cube'') \<inter> set (names clean_doc) = {}"
  by (simp add: temp_names_def names_def clean_doc_def doc_of_def mesh_feature_def)

lemma stalling_enter:
  "enter_transaction stalling_host ''Cube'' False clean_doc = (Inr (), clean_opened)"
  by code_simp

lemma stalling_opened_evaluate:
  "evaluate_mesh_automated stalling_host ''Cube'' clean_opened = (Inr ''proceed'', clean_opened)"
  by code_simp

lemma stalling_opened_steps:
  "fst (convert_steps stalling_host ''Cube'' False ''Cube'' clean_opened) = Inl HostError"
  by code_simp


lemma stalled_evaluate:
  "fst (evaluate_mesh_automated stalling_host ''Cube'' clean_doc) = Inr ''proceed''"
  by code_simp

lemma stalled_convert:
  "convert_single_mesh stalling_host ''Cube'' True clean_doc =
     (Inl ReferenceError,
      doc_of [\<lparr>Name = ''Cube_Body'', TypeId = ''PartDesign::Body'', Mesh = None,
               Shape = Some NullShape, Source = None,
               BaseFeature = Some ''Cube_solid_simple'', Visibility = True\<rparr>])"
  by code_simp

lemma knotted_evaluate:
  "fst (evaluate_mesh_automated plain_host ''Cube'' knotted_doc) = Inr ''proceed''"
  by code_simp

lemma knotted_convert:
  "convert_single_mesh plain_host ''Cube'' True knotted_doc = (Inr (False, None), thin_doc)"
  by code_simp

lemma shadowed_evaluate:
  "fst (evaluate_mesh_automated plain_host ''Cube'' shadowed_doc) = Inr ''proceed''"
  by code_simp

lemma shadowed_convert:
  "convert_single_mesh plain_host ''Cube'' True shadowed_doc =
     (Inr (False, None),
      doc_of [mesh_feature ''Cube'' thin_mesh,
              \<lparr>Name = ''Cube_shape00000000000'', TypeId = ''Part::Feature'', Mesh = None,
               Shape = Some (FromMesh 3), Source = None, BaseFeature = None,
               Visibility = True\<rparr>])"
  by code_simp

lemma locked_convert:
  "fst (convert_single_mesh locked_host ''Cube'' False thin_doc) = Inl HostError"
  by code_simp


subsection \<open>Claims about the conversion: the success path\<close>

lemma find_append_fresh:
  "n \<notin> Name ` set xs \<Longrightarrow> find (\<lambda>ob. Name ob = n) (xs @ ys) = find (\<lambda>ob. Name ob = n) ys"
  by (induction xs) auto

lemma map_update_fresh:
  "n \<notin> Name ` set xs \<Longrightarrow> map (\<lambda>ob. if Name ob = n then f ob else ob) xs = xs"
  by (induction xs) auto

lemma filter_fresh_image:
  "n \<notin> Name ` set xs \<Longrightarrow> filter (\<lambda>ob. Name ob \<noteq> n) xs = xs"
  by (induction xs) auto

lemma getObject_Objects_update [simp]:
  "getObject (d\<lparr>Objects := xs\<rparr>) n = find (\<lambda>ob. Name ob = n) xs"
  by (simp add: getObject_def)

lemma addObject_run:
  assumes "\<forall>c x. \<not> raises host c x"
    and "\<forall>taken n. getUniqueObjectName host taken n \<notin> set taken"
  obtains n where "n \<notin> Name ` set (Objects d)"
    and "addObject host ty p d = (Inr n, d\<lparr>Objects := Objects d @ [new_object host ty n]\<rparr>)"
proof -
  let ?taken = "map Name (Objects d)"
  let ?n = "if p \<in> set ?taken then getUniqueObjectName host ?taken p else p"
  have "?n \<notin> set ?taken"
  proof (cases "p \<in> set ?taken")
    case True
    then show ?thesis using assms(2) [rule_format, of ?taken p] by simp
  next
    case False
    then show ?thesis by simp
  qed
  then have "?n \<notin> Name ` set (Objects d)" by simp
  moreover have "addObject host ty p d = (Inr ?n, d\<lparr>Objects := Objects d @ [new_object host ty ?n]\<rparr>)"
    using assms(1) by (simp add: addObject_def Let_def)
  ultimately show ?thesis using that by blast
qed

lemma get_Mesh_append:
  assumes "get_Mesh h d = (Inr m, d)"
  shows "get_Mesh h (d\<lparr>Objects := Objects d @ ys\<rparr>) = (Inr m, d\<lparr>Objects := Objects d @ ys\<rparr>)"
proof -
  from assms obtain ob where "getObject d h = Some ob" "Mesh ob = Some m"
    by (auto simp: get_Mesh_def split: option.splits)
  then show ?thesis
    by (simp add: get_Mesh_def getObject_def find_append_Some)
qed

lemma Name_new_object [simp]: "Name (new_object host ty n) = n"
  by (simp add: new_object_def)

lemma TypeId_new_object [simp]: "TypeId (new_object host ty n) = ty"
  by (simp add: new_object_def)

lemma mesh_to_shape_run:
  assumes nr: "\<forall>c x. \<not> raises host c x"
    and uq: "\<forall>taken n. getUniqueObjectName host taken n \<notin> set taken"
    and mesh: "get_Mesh h d = (Inr m, d)"
    and k: "makeShapeFromMesh host (Topology host m) 0.1 False = Inr sh"
  obtains n where "n \<notin> Name ` set (Objects d)"
    and "mesh_to_shape host h base d =
           (Inr n, d\<lparr>Objects := Objects d
              @ [(new_object host ''Part::Feature'' n)\<lparr>Shape := Some sh\<rparr>]\<rparr>)"
proof -
  from addObject_run [OF nr uq, of d "''Part::Feature''" "base @ ''_shape''"] obtain n where
    n: "n \<notin> Name ` set (Objects d)"
    and a: "addObject host ''Part::Feature'' (base @ ''_shape'') d =
              (Inr n, d\<lparr>Objects := Objects d @ [new_object host ''Part::Feature'' n]\<rparr>)"
    by blast
  let ?d1 = "d\<lparr>Objects := Objects d @ [new_object host ''Part::Feature'' n]\<rparr>"
  have g: "get_Mesh h ?d1 = (Inr m, ?d1)" by (rule get_Mesh_append [OF mesh])
  have s: "set_Shape n sh ?d1 =
             (Inr (), d\<lparr>Objects := Objects d @ [(new_object host ''Part::Feature'' n)\<lparr>Shape := Some sh\<rparr>]\<rparr>)"
    using n by (simp add: set_Shape_def set_attr_def update_object_def find_append_fresh map_update_fresh)
  have "mesh_to_shape host h base d =
           (Inr n, d\<lparr>Objects := Objects d
              @ [(new_object host ''Part::Feature'' n)\<lparr>Shape := Some sh\<rparr>]\<rparr>)"
    using a g k s by (simp add: mesh_to_shape_def seq_def of_result_def succeed_def)
  with n show ?thesis using that by blast
qed

lemma shape_to_solid_run:
  assumes nr: "\<forall>c x. \<not> raises host c x"
    and uq: "\<forall>taken n. getUniqueObjectName host taken n \<notin> set taken"
    and shape: "Objects d = xs @ [a]" "Name a = s" "Shape a = Some sh" "s \<notin> Name ` set xs"
    and k: "Part_Shell host sh = Inr shell" "Part_Solid host shell = Inr solid"
  obtains n where "n \<notin> Name ` set (Objects d)"
    and "shape_to_solid host base s d =
           (Inr n, d\<lparr>Objects := Objects d
              @ [(new_object host ''Part::Feature'' n)\<lparr>Shape := Some solid\<rparr>]\<rparr>)"
proof -
  from addObject_run [OF nr uq, of d "''Part::Feature''" "base @ ''_solid''"] obtain n where
    n: "n \<notin> Name ` set (Objects d)"
    and a: "addObject host ''Part::Feature'' (base @ ''_solid'') d =
              (Inr n, d\<lparr>Objects := Objects d @ [new_object host ''Part::Feature'' n]\<rparr>)"
    by blast
  let ?d1 = "d\<lparr>Objects := Objects d @ [new_object host ''Part::Feature'' n]\<rparr>"
  have g: "get_Shape s ?d1 = (Inr sh, ?d1)"
    using shape by (simp add: get_Shape_def find_append_fresh)
  have st: "set_Shape n solid ?d1 =
             (Inr (), d\<lparr>Objects := Objects d @ [(new_object host ''Part::Feature'' n)\<lparr>Shape := Some solid\<rparr>]\<rparr>)"
    using n by (simp add: set_Shape_def set_attr_def update_object_def find_append_fresh map_update_fresh)
  have "shape_to_solid host base s d =
           (Inr n, d\<lparr>Objects := Objects d
              @ [(new_object host ''Part::Feature'' n)\<lparr>Shape := Some solid\<rparr>]\<rparr>)"
    using a g k st by (simp add: shape_to_solid_def seq_def of_result_def succeed_def)
  with n show ?thesis using that by blast
qed

lemma refine_solid_run:
  assumes nr: "\<forall>c x. \<not> raises host c x"
    and uq: "\<forall>taken n. getUniqueObjectName host taken n \<notin> set taken"
    and solid: "Objects d = xs @ [a]" "Name a = so" "so \<notin> Name ` set xs"
  obtains n where "n \<notin> Name ` set (Objects d)"
    and "refine_solid host base so d =
           (Inr n, d\<lparr>Objects := xs
              @ [a\<lparr>Visibility := False\<rparr>,
                 (new_object host ''Part::Refine'' n)\<lparr>Source := Some so\<rparr>]\<rparr>)"
proof -
  from addObject_run [OF nr uq, of d "''Part::Refine''" "base @ ''_solid_refined''"] obtain n where
    n: "n \<notin> Name ` set (Objects d)"
    and a: "addObject host ''Part::Refine'' (base @ ''_solid_refined'') d =
              (Inr n, d\<lparr>Objects := Objects d @ [new_object host ''Part::Refine'' n]\<rparr>)"
    by blast
  have ne: "n \<noteq> so" "n \<notin> Name ` set xs" using n solid by auto
  let ?d1 = "d\<lparr>Objects := Objects d @ [new_object host ''Part::Refine'' n]\<rparr>"
  let ?d2 = "d\<lparr>Objects := xs @ [a, (new_object host ''Part::Refine'' n)\<lparr>Source := Some so\<rparr>]\<rparr>"
  have s1: "set_Source n so ?d1 = (Inr (), ?d2)"
    using ne solid
    by (simp add: set_Source_def set_attr_def update_object_def find_append_fresh map_update_fresh)
  have s2: "set_Visibility so False ?d2 =
      (Inr (), d\<lparr>Objects := xs
              @ [a\<lparr>Visibility := False\<rparr>,
                 (new_object host ''Part::Refine'' n)\<lparr>Source := Some so\<rparr>]\<rparr>)"
    using ne solid
    by (simp add: set_Visibility_def set_attr_def update_object_def find_append_fresh map_update_fresh)
  have "refine_solid host base so d =
           (Inr n, d\<lparr>Objects := xs
              @ [a\<lparr>Visibility := False\<rparr>,
                 (new_object host ''Part::Refine'' n)\<lparr>Source := Some so\<rparr>]\<rparr>)"
    using a s1 s2 by (simp add: refine_solid_def seq_def succeed_def)
  with n show ?thesis using that by blast
qed

lemma recompute_run:
  "\<forall>c x. \<not> raises host c x \<Longrightarrow>
   recompute host d = (Inr (), d\<lparr>Objects := map (recompute_object host d) (Objects d)\<rparr>)"
  by (simp add: recompute_def)

lemma recompute_object_other:
  "TypeId ob \<noteq> ''Part::Refine'' \<Longrightarrow> recompute_object host d ob = ob"
  by (simp add: recompute_object_def)

lemma fresh_recomputed:
  "n \<notin> Name ` set xs \<Longrightarrow> n \<notin> Name ` set (map (recompute_object host d) (filter P xs))"
  by (induction xs) auto

lemma fresh_recomputed_all:
  "n \<notin> Name ` set xs \<Longrightarrow> n \<notin> Name ` set (map (recompute_object host d) xs)"
  by (induction xs) auto

lemma convert_build_run:
  assumes nr: "\<forall>c x. \<not> raises host c x"
    and uq: "\<forall>taken n. getUniqueObjectName host taken n \<notin> set taken"
    and mesh: "get_Mesh h d = (Inr m, d)"
    and k1: "makeShapeFromMesh host (Topology host m) 0.1 False = Inr sh"
    and k2: "Part_Shell host sh = Inr shell"
    and k3: "Part_Solid host shell = Inr solid"
    and v1: "bool_Shape host (refine host solid)"
    and v2: "isValid host (refine host solid) = Inr True"
  obtains n1 n2 n3 old where
    "n1 \<notin> Name ` set (Objects d)" "n2 \<notin> Name ` set (Objects d)" "n3 \<notin> Name ` set (Objects d)"
    "n1 \<noteq> n2" "n1 \<noteq> n3" "n2 \<noteq> n3"
    "map Name old = map Name (Objects d)"
    "convert_build host h base d =
       (Inr (n1, n2, n3, True),
        d\<lparr>Objects := old
          @ [(new_object host ''Part::Feature'' n1)\<lparr>Shape := Some sh\<rparr>,
             (new_object host ''Part::Feature'' n2)\<lparr>Shape := Some solid, Visibility := False\<rparr>,
             (new_object host ''Part::Refine'' n3)
               \<lparr>Shape := Some (refine host solid), Source := Some n2\<rparr>]\<rparr>)"
proof -
  let ?A1 = "(new_object host ''Part::Feature'' n1)\<lparr>Shape := Some sh\<rparr>"
  from mesh_to_shape_run [OF nr uq mesh k1, of base] obtain n1 where
    n1: "n1 \<notin> Name ` set (Objects d)"
    and r1: "mesh_to_shape host h base d =
           (Inr n1, d\<lparr>Objects := Objects d
              @ [(new_object host ''Part::Feature'' n1)\<lparr>Shape := Some sh\<rparr>]\<rparr>)"
    by blast
  define A1 where "A1 = (new_object host ''Part::Feature'' n1)\<lparr>Shape := Some sh\<rparr>"
  define dA where "dA = d\<lparr>Objects := Objects d @ [A1]\<rparr>"
  have oA: "Objects dA = Objects d @ [A1]" by (simp add: dA_def)
  have a1: "Name A1 = n1" "Shape A1 = Some sh" "TypeId A1 = ''Part::Feature''"
    by (simp_all add: A1_def new_object_def)
  from shape_to_solid_run [OF nr uq oA a1(1,2) n1 k2 k3, of base] obtain n2 where
    n2: "n2 \<notin> Name ` set (Objects dA)"
    and r2: "shape_to_solid host base n1 dA =
           (Inr n2, dA\<lparr>Objects := Objects dA
              @ [(new_object host ''Part::Feature'' n2)\<lparr>Shape := Some solid\<rparr>]\<rparr>)"
    by blast
  define A2 where "A2 = (new_object host ''Part::Feature'' n2)\<lparr>Shape := Some solid\<rparr>"
  define dB where "dB = d\<lparr>Objects := (Objects d @ [A1]) @ [A2]\<rparr>"
  have oB: "Objects dB = (Objects d @ [A1]) @ [A2]" by (simp add: dB_def)
  have a2: "Name A2 = n2" "Shape A2 = Some solid" "TypeId A2 = ''Part::Feature''"
    by (simp_all add: A2_def new_object_def)
  have n2': "n2 \<notin> Name ` set (Objects d @ [A1])" using n2 oA by simp
  have dB_eq: "dA\<lparr>Objects := Objects dA @ [A2]\<rparr> = dB" by (simp add: dA_def dB_def)
  from refine_solid_run [OF nr uq oB a2(1) n2', of base] obtain n3 where
    n3: "n3 \<notin> Name ` set (Objects dB)"
    and r3: "refine_solid host base n2 dB =
           (Inr n3, dB\<lparr>Objects := (Objects d @ [A1])
              @ [A2\<lparr>Visibility := False\<rparr>,
                 (new_object host ''Part::Refine'' n3)\<lparr>Source := Some n2\<rparr>]\<rparr>)"
    by blast
  define A2' where "A2' = A2\<lparr>Visibility := False\<rparr>"
  define A3 where "A3 = (new_object host ''Part::Refine'' n3)\<lparr>Source := Some n2\<rparr>"
  define dC where "dC = d\<lparr>Objects := Objects d @ [A1, A2', A3]\<rparr>"
  have dC_eq: "dB\<lparr>Objects := (Objects d @ [A1]) @ [A2', A3]\<rparr> = dC" by (simp add: dB_def dC_def)
  have a2': "Name A2' = n2" "Shape A2' = Some solid" "TypeId A2' = ''Part::Feature''"
    using a2 by (simp_all add: A2'_def)
  have a3: "Name A3 = n3" "TypeId A3 = ''Part::Refine''" "Source A3 = Some n2"
    by (simp_all add: A3_def new_object_def)
  have ne: "n1 \<noteq> n2" "n1 \<noteq> n3" "n2 \<noteq> n3"
    and f2: "n2 \<notin> Name ` set (Objects d)" and f3: "n3 \<notin> Name ` set (Objects d)"
    using n2' n3 oB a1(1) a2(1) by auto
  define A3' where "A3' = A3\<lparr>Shape := Some (refine host solid)\<rparr>"
  define old where "old = map (recompute_object host dC) (Objects d)"
  have g2: "getObject dC n2 = Some A2'"
    using f2 ne a1(1) a2'(1) by (simp add: dC_def find_append_fresh)
  have rc3: "recompute_object host dC A3 = A3'"
    using a3 g2 a2'(2) by (simp add: recompute_object_def A3'_def)
  have rc1: "recompute_object host dC A1 = A1" using a1(3) by (simp add: recompute_object_other)
  have rc2: "recompute_object host dC A2' = A2'" using a2'(3) by (simp add: recompute_object_other)
  define dD where "dD = d\<lparr>Objects := old @ [A1, A2', A3']\<rparr>"
  have r4: "recompute host dC = (Inr (), dD)"
    using recompute_run [OF nr, of dC] rc1 rc2 rc3 by (simp add: dC_def dD_def old_def)
  have f3o: "n3 \<notin> Name ` set old" unfolding old_def by (rule fresh_recomputed_all [OF f3])
  have g3: "get_Shape n3 dD = (Inr (refine host solid), dD)"
    using f3o ne a1(1) a2'(1) a3(1)
    by (simp add: get_Shape_def dD_def find_append_fresh A3'_def)
  have r1': "mesh_to_shape host h base d = (Inr n1, dA)"
    using r1 by (simp add: dA_def A1_def)
  have r2': "shape_to_solid host base n1 dA = (Inr n2, dB)"
    using r2 by (simp add: dA_def dB_def A2_def)
  have r3': "refine_solid host base n2 dB = (Inr n3, dC)"
    using r3 by (simp add: dB_def dC_def A2'_def A3_def)
  have run: "convert_build host h base d = (Inr (n1, n2, n3, True), dD)"
    using r1' r2' r3' r4 g3 v1 v2
    by (simp add: convert_build_def seq_def of_result_def succeed_def)
  have names_old: "map Name old = map Name (Objects d)" by (simp add: old_def)
  have shape_dD: "dD = d\<lparr>Objects := old
          @ [(new_object host ''Part::Feature'' n1)\<lparr>Shape := Some sh\<rparr>,
             (new_object host ''Part::Feature'' n2)\<lparr>Shape := Some solid, Visibility := False\<rparr>,
             (new_object host ''Part::Refine'' n3)
               \<lparr>Shape := Some (refine host solid), Source := Some n2\<rparr>]\<rparr>"
    by (simp add: dD_def A1_def A2'_def A2_def A3'_def A3_def new_object_def)
  show ?thesis
    using that [OF n1 f2 f3 ne names_old] run shape_dD by simp
qed

lemma wrap_body_run:
  assumes nr: "\<forall>c x. \<not> raises host c x"
    and uq: "\<forall>taken n. getUniqueObjectName host taken n \<notin> set taken"
    and obs: "Objects d = old @ [a1, a2, a3]"
    and nm: "Name a1 = n1" "Name a2 = n2" "Name a3 = n3"
    and sh: "Shape a3 = Some rs"
    and fr: "n3 \<notin> Name ` set old" "n1 \<noteq> n3" "n2 \<noteq> n3"
  obtains n4 n5 where
    "n4 \<notin> Name ` set old" "n5 \<notin> Name ` set old" "n4 \<noteq> n5"
    "n4 \<notin> {n1, n2, n3}" "n5 \<notin> {n1, n2, n3}"
    "wrap_body host base n3 d =
       (Inr (n4, n5),
        d\<lparr>Objects := old @ [a1, a2, a3,
            (new_object host ''Part::Feature'' n4)\<lparr>Shape := Some rs, Visibility := False\<rparr>,
            (new_object host ''PartDesign::Body'' n5)\<lparr>BaseFeature := Some n4\<rparr>]\<rparr>)"
proof -
  from addObject_run [OF nr uq, of d "''Part::Feature''" "base @ ''_solid_simple''"] obtain n4 where
    n4: "n4 \<notin> Name ` set (Objects d)"
    and r1: "addObject host ''Part::Feature'' (base @ ''_solid_simple'') d =
              (Inr n4, d\<lparr>Objects := Objects d @ [new_object host ''Part::Feature'' n4]\<rparr>)"
    by blast
  define N4 where "N4 = new_object host ''Part::Feature'' n4"
  define dA where "dA = d\<lparr>Objects := old @ [a1, a2, a3, N4]\<rparr>"
  have r1': "addObject host ''Part::Feature'' (base @ ''_solid_simple'') d = (Inr n4, dA)"
    using r1 by (simp add: dA_def N4_def obs)
  have f4: "n4 \<notin> Name ` set old" "n4 \<noteq> n1" "n4 \<noteq> n2" "n4 \<noteq> n3"
    using n4 obs nm by auto
  have nN4: "Name N4 = n4" by (simp add: N4_def)
  have g: "get_Shape n3 dA = (Inr rs, dA)"
    using fr nm sh by (simp add: get_Shape_def dA_def find_append_fresh)
  define A4s where "A4s = N4\<lparr>Shape := Some rs\<rparr>"
  define dB where "dB = d\<lparr>Objects := old @ [a1, a2, a3, A4s]\<rparr>"
  have s1: "set_Shape n4 rs dA = (Inr (), dB)"
    using f4 nm nN4
    by (simp add: set_Shape_def set_attr_def update_object_def dA_def dB_def A4s_def
        find_append_fresh map_update_fresh)
  from addObject_run [OF nr uq, of dB "''PartDesign::Body''" "base @ ''_Body''"] obtain n5 where
    n5: "n5 \<notin> Name ` set (Objects dB)"
    and r2: "addObject host ''PartDesign::Body'' (base @ ''_Body'') dB =
              (Inr n5, dB\<lparr>Objects := Objects dB @ [new_object host ''PartDesign::Body'' n5]\<rparr>)"
    by blast
  define N5 where "N5 = new_object host ''PartDesign::Body'' n5"
  define dC where "dC = d\<lparr>Objects := old @ [a1, a2, a3, A4s, N5]\<rparr>"
  have nA4s: "Name A4s = n4" by (simp add: A4s_def nN4)
  have nN5: "Name N5 = n5" by (simp add: N5_def)
  have r2': "addObject host ''PartDesign::Body'' (base @ ''_Body'') dB = (Inr n5, dC)"
    using r2 by (simp add: dB_def dC_def N5_def)
  have f5: "n5 \<notin> Name ` set old" "n5 \<noteq> n1" "n5 \<noteq> n2" "n5 \<noteq> n3" "n5 \<noteq> n4"
    using n5 nm nA4s by (auto simp: dB_def)
  define A5 where "A5 = N5\<lparr>BaseFeature := Some n4\<rparr>"
  define dD where "dD = d\<lparr>Objects := old @ [a1, a2, a3, A4s, A5]\<rparr>"
  have s2: "set_BaseFeature n5 n4 dC = (Inr (), dD)"
    using f5 nm nA4s nN5
    by (simp add: set_BaseFeature_def set_attr_def update_object_def dC_def dD_def A5_def
        find_append_fresh map_update_fresh)
  define A4 where "A4 = A4s\<lparr>Visibility := False\<rparr>"
  define dE where "dE = d\<lparr>Objects := old @ [a1, a2, a3, A4, A5]\<rparr>"
  have nA5: "Name A5 = n5" by (simp add: A5_def nN5)
  have s3: "set_Visibility n4 False dD = (Inr (), dE)"
    using f4 f5 nm nA4s nA5
    by (simp add: set_Visibility_def set_attr_def update_object_def dD_def dE_def A4_def
        find_append_fresh map_update_fresh)
  have run: "wrap_body host base n3 d = (Inr (n4, n5), dE)"
    using r1' g s1 r2' s2 s3 by (simp add: wrap_body_def seq_def succeed_def)
  have dE_eq: "dE = d\<lparr>Objects := old @ [a1, a2, a3,
            (new_object host ''Part::Feature'' n4)\<lparr>Shape := Some rs, Visibility := False\<rparr>,
            (new_object host ''PartDesign::Body'' n5)\<lparr>BaseFeature := Some n4\<rparr>]\<rparr>"
    by (simp add: dE_def A4_def A4s_def N4_def A5_def N5_def)
  have a: "n4 \<noteq> n5" "n4 \<notin> {n1, n2, n3}" "n5 \<notin> {n1, n2, n3}" using f4 f5 by auto
  show ?thesis
    using that [OF f4(1) f5(1) a] run dE_eq by simp
qed

lemma remove_intermediates_run:
  assumes nr: "\<forall>c x. \<not> raises host c x"
    and obs: "Objects d = old @ [a1, a2, a3, a4, a5]"
    and nm: "Name a1 = n1" "Name a2 = n2" "Name a3 = n3" "Name a4 = n4" "Name a5 = n5"
    and fr: "n1 \<notin> Name ` set old" "n2 \<notin> Name ` set old" "n3 \<notin> Name ` set old"
      "n4 \<notin> Name ` set old" "n5 \<notin> Name ` set old"
      "n1 \<noteq> n2" "n1 \<noteq> n3" "n2 \<noteq> n3" "n4 \<notin> {n1, n2, n3}" "n5 \<notin> {n1, n2, n3}"
    and h: "h \<in> Name ` set old"
  shows "remove_intermediates host h n1 n2 n3 d =
           (Inr (), d\<lparr>Objects := filter (\<lambda>ob. Name ob \<noteq> h) old @ [a4, a5]\<rparr>)"
proof -
  have hn: "h \<noteq> n1" "h \<noteq> n2" "h \<noteq> n3" "h \<noteq> n4" "h \<noteq> n5" using h fr by auto
  define dA where "dA = d\<lparr>Objects := old @ [a2, a3, a4, a5]\<rparr>"
  define dB where "dB = d\<lparr>Objects := old @ [a3, a4, a5]\<rparr>"
  define dC where "dC = d\<lparr>Objects := old @ [a4, a5]\<rparr>"
  define dD where "dD = d\<lparr>Objects := filter (\<lambda>ob. Name ob \<noteq> h) old @ [a4, a5]\<rparr>"
  have g1: "get_Name n1 d = (Inr n1, d)"
    using fr nm by (simp add: get_Name_def getObject_def obs find_append_fresh)
  have x1: "removeObject host n1 d = (Inr (), dA)"
    using nr fr nm by (auto simp: removeObject_def obs dA_def filter_fresh_image)
  have g2: "get_Name n2 dA = (Inr n2, dA)"
    using fr nm by (simp add: get_Name_def dA_def find_append_fresh)
  have x2: "removeObject host n2 dA = (Inr (), dB)"
    using nr fr nm by (auto simp: removeObject_def dA_def dB_def filter_fresh_image)
  have g3: "get_Name n3 dB = (Inr n3, dB)"
    using fr nm by (simp add: get_Name_def dB_def find_append_fresh)
  have x3: "removeObject host n3 dB = (Inr (), dC)"
    using nr fr nm by (auto simp: removeObject_def dB_def dC_def filter_fresh_image)
  have "h \<in> set (names dC)" using h by (simp add: names_def dC_def)
  then have g4: "get_Name h dC = (Inr h, dC)" by (rule get_Name_exists)
  have x4: "removeObject host h dC = (Inr (), dD)"
    using nr hn nm by (auto simp: removeObject_def dC_def dD_def)
  show ?thesis
    using g1 x1 g2 x2 g3 x3 g4 x4
    by (simp add: remove_intermediates_def seq_def dD_def)
qed

lemma map_Name_recomputed_filter:
  "map Name (map (recompute_object host d) (filter (\<lambda>ob. Name ob \<noteq> h) xs)) =
     filter (\<lambda>n. n \<noteq> h) (map Name xs)"
  by (induction xs) auto

lemma convert_finish_run:
  assumes nr: "\<forall>c x. \<not> raises host c x"
    and uq: "\<forall>taken n. getUniqueObjectName host taken n \<notin> set taken"
    and obs: "Objects d = old @ [a1, a2, a3]"
    and nm: "Name a1 = n1" "Name a2 = n2" "Name a3 = n3"
    and sh: "Shape a3 = Some rs"
    and fr: "n1 \<notin> Name ` set old" "n2 \<notin> Name ` set old" "n3 \<notin> Name ` set old"
      "n1 \<noteq> n2" "n1 \<noteq> n3" "n2 \<noteq> n3"
    and h: "h \<in> Name ` set old"
    and tx: "\<not> bt \<longrightarrow> transaction d = Some (tn, snap)"
  obtains n4 n5 rest final where
    "n4 \<notin> Name ` set old" "n5 \<notin> Name ` set old" "n4 \<noteq> n5"
    "map Name rest = filter (\<lambda>n. n \<noteq> h) (map Name old)"
    "convert_finish host h bt base n1 n2 n3 d = (Inr (True, Some n5), final)"
    "Objects final = rest
        @ [(new_object host ''Part::Feature'' n4)\<lparr>Shape := Some rs, Visibility := False\<rparr>,
           (new_object host ''PartDesign::Body'' n5)\<lparr>BaseFeature := Some n4\<rparr>]"
    "bt \<longrightarrow> txn final = txn d"
    "\<not> bt \<longrightarrow> transaction final = None \<and> history final = history d @ [Committed tn]"
proof -
  from wrap_body_run [OF nr uq obs nm sh fr(3,5,6), of base] obtain n4 n5 where
    w: "n4 \<notin> Name ` set old" "n5 \<notin> Name ` set old" "n4 \<noteq> n5"
       "n4 \<notin> {n1, n2, n3}" "n5 \<notin> {n1, n2, n3}"
    and r1: "wrap_body host base n3 d =
       (Inr (n4, n5),
        d\<lparr>Objects := old @ [a1, a2, a3,
            (new_object host ''Part::Feature'' n4)\<lparr>Shape := Some rs, Visibility := False\<rparr>,
            (new_object host ''PartDesign::Body'' n5)\<lparr>BaseFeature := Some n4\<rparr>]\<rparr>)"
    by blast
  define A4 where "A4 = (new_object host ''Part::Feature'' n4)\<lparr>Shape := Some rs, Visibility := False\<rparr>"
  define A5 where "A5 = (new_object host ''PartDesign::Body'' n5)\<lparr>BaseFeature := Some n4\<rparr>"
  define dE where "dE = d\<lparr>Objects := old @ [a1, a2, a3, A4, A5]\<rparr>"
  have r1': "wrap_body host base n3 d = (Inr (n4, n5), dE)"
    using r1 by (simp add: dE_def A4_def A5_def)
  have oE: "Objects dE = old @ [a1, a2, a3, A4, A5]" by (simp add: dE_def)
  have n45: "Name A4 = n4" "Name A5 = n5" "TypeId A4 = ''Part::Feature''" "TypeId A5 = ''PartDesign::Body''"
    by (simp_all add: A4_def A5_def new_object_def)
  define dF where "dF = d\<lparr>Objects := filter (\<lambda>ob. Name ob \<noteq> h) old @ [A4, A5]\<rparr>"
  have r2: "remove_intermediates host h n1 n2 n3 dE = (Inr (), dF)"
    using remove_intermediates_run [OF nr oE nm n45(1,2) fr(1,2,3) w(1,2) fr(4,5,6) w(4,5) h]
    by (simp add: dE_def dF_def)
  define rest where "rest = map (recompute_object host dF) (filter (\<lambda>ob. Name ob \<noteq> h) old)"
  define dG where "dG = d\<lparr>Objects := rest @ [A4, A5]\<rparr>"
  have rc4: "recompute_object host dF A4 = A4" using n45(3) by (simp add: recompute_object_other)
  have rc5: "recompute_object host dF A5 = A5" using n45(4) by (simp add: recompute_object_other)
  have r3: "recompute host dF = (Inr (), dG)"
    using recompute_run [OF nr, of dF] rc4 rc5 by (simp add: dF_def dG_def rest_def)
  have f5: "n5 \<notin> Name ` set rest" unfolding rest_def by (rule fresh_recomputed [OF w(2)])
  have g5: "get_Name n5 dG = (Inr n5, dG)"
    using f5 n45 w(3) by (simp add: get_Name_def dG_def find_append_fresh)
  have names_rest: "map Name rest = filter (\<lambda>n. n \<noteq> h) (map Name old)"
    unfolding rest_def by (rule map_Name_recomputed_filter)
  have tG: "txn dG = txn d" by (simp add: txn_def dG_def)
  show ?thesis
  proof (cases bt)
    case True
    have "convert_finish host h bt base n1 n2 n3 d = (Inr (True, Some n5), dG)"
      using r1' r2 r3 g5 True by (simp add: convert_finish_def seq_def succeed_def)
    moreover have "Objects dG = rest @ [A4, A5]" by (simp add: dG_def)
    ultimately show ?thesis
      using that [OF w(1,2,3) names_rest, of dG] tG True by (simp add: A4_def A5_def)
  next
    case False
    with tx have t: "transaction d = Some (tn, snap)" by simp
    define dH where "dH = dG\<lparr>transaction := None, history := history d @ [Committed tn]\<rparr>"
    have c: "commitTransaction host dG = (Inr (), dH)"
      using nr t by (simp add: commitTransaction_def dG_def dH_def)
    have g5': "get_Name n5 dH = (Inr n5, dH)"
      using f5 n45 w(3) by (simp add: get_Name_def getObject_def dH_def dG_def find_append_fresh)
    have "convert_finish host h bt base n1 n2 n3 d = (Inr (True, Some n5), dH)"
      using r1' r2 r3 g5 False c g5' by (simp add: convert_finish_def seq_def succeed_def)
    moreover have "Objects dH = rest @ [A4, A5]" by (simp add: dH_def dG_def)
    moreover have "transaction dH = None \<and> history dH = history d @ [Committed tn]"
      by (simp add: dH_def)
    ultimately show ?thesis
      using that [OF w(1,2,3) names_rest, of dH] False by (simp add: A4_def A5_def)
  qed
qed


lemma longest_ge: "t \<in> set taken \<Longrightarrow> length t \<le> longest taken"
  by (induction taken) auto

lemma plain_host_unique:
  "\<forall>taken n. getUniqueObjectName plain_host taken n \<notin> set taken"
proof (intro allI notI)
  fix taken n
  assume "getUniqueObjectName plain_host taken n \<in> set taken"
  from longest_ge [OF this] show False by (simp add: plain_host_def)
qed

lemma plain_host_kernel [simp]:
  "makeShapeFromMesh plain_host t tol b = Inr (FromMesh (pm_facets t))"
  "Part_Shell plain_host s = Inr (ShellOf s)"
  "Part_Solid plain_host s = Inr (SolidOf s)"
  "refine plain_host s = Refined s"
  "bool_Shape plain_host s"
  "isValid plain_host (Refined (SolidOf (ShellOf (FromMesh n)))) = Inr (4 \<le> n)"
  by (simp_all add: plain_host_def)

lemma clean_evaluate:
  "evaluate_mesh_automated plain_host ''Cube'' clean_doc = (Inr ''proceed'', clean_doc)"
  by code_simp

lemma clean_enter: "enter_transaction plain_host ''Cube'' False clean_doc = (Inr (), clean_opened)"
  by code_simp

lemma clean_opened_evaluate:
  "evaluate_mesh_automated plain_host ''Cube'' clean_opened = (Inr ''proceed'', clean_opened)"
  by code_simp



end
